theory Spec2Isabelle
  imports Main "HOL-Library.Multiset"
begin

text \<open>
  A model of the class \<open>ImportManager\<close> of the recipe import page: the validation of
  the submitted URLs and the polling of the job status endpoint (\<open>loadJobs\<close>, the
  interval timer, \<open>cleanup\<close>) with the rendering it drives. The model follows the
  class with the fingerprint, the refresh guard and the adaptive timer
  (\<open>src/unnamed/part_000\<close>). The repository also holds an earlier copy of the class
  (\<open>src/frontend/import.js\<close>) with the same \<open>validateUrls\<close> but a \<open>loadJobs\<close> that
  has none of the three: it renders on every poll, on a fixed timer.
\<close>

section \<open>URL validation (ImportManager.validateUrls)\<close>

text \<open>
  JavaScript strings are modelled as \<open>string\<close> (lists of 8-bit characters).
  \<open>toLowerCase\<close> is the ASCII case conversion; the Unicode case mappings of other
  characters are not modelled.
\<close>

definition lower_char :: "char \<Rightarrow> char" where
  "lower_char c =
     (let n = (of_char c :: nat) in if 65 \<le> n \<and> n \<le> 90 then char_of (n + 32) else c)"

definition toLowerCase :: "string \<Rightarrow> string" where
  "toLowerCase s = map lower_char s"

text \<open>\<open>String.prototype.startsWith\<close> and \<open>String.prototype.includes\<close> (named \<open>includes_str\<close> here).\<close>

fun startsWith :: "string \<Rightarrow> string \<Rightarrow> bool" where
  "startsWith s [] = True"
| "startsWith [] (d # ds) = False"
| "startsWith (c # cs) (d # ds) = (c = d \<and> startsWith cs ds)"

fun includes_str :: "string \<Rightarrow> string \<Rightarrow> bool" where
  "includes_str [] d = (d = [])"
| "includes_str (c # cs) d = (startsWith (c # cs) d \<or> includes_str cs d)"

definition supportedDomains :: "string list" where
  "supportedDomains =
     [''youtube.com'', ''youtu.be'', ''instagram.com'', ''facebook.com'', ''tiktok.com'',
      ''fb.watch'']"

text \<open>The predicate computed for each URL inside the \<open>forEach\<close> of \<open>validateUrls\<close>.\<close>

definition isValid :: "string \<Rightarrow> bool" where
  "isValid url = list_ex (\<lambda>domain. includes_str (toLowerCase url) domain) supportedDomains"

text \<open>
  \<open>validateUrls\<close> walks the input once and pushes each URL at the end of one of two
  arrays; the pair of arrays is returned.
\<close>

definition validate_step :: "string list \<times> string list \<Rightarrow> string \<Rightarrow> string list \<times> string list" where
  "validate_step acc url =
     (if isValid url then (fst acc @ [url], snd acc) else (fst acc, snd acc @ [url]))"

definition validateUrls :: "string list \<Rightarrow> string list \<times> string list" where
  "validateUrls urls = foldl validate_step ([], []) urls"

text \<open>
  The part of \<open>handleSubmit\<close> that follows \<open>parseUrls\<close>: given the URLs matched in the
  input field it yields the body posted to the ingest endpoint, or \<open>None\<close> when the
  handler returns without calling \<open>startImport\<close>.
\<close>

definition handleSubmit_request :: "string list \<Rightarrow> string list option" where
  "handleSubmit_request urls =
     (if urls = [] then None
      else let r = validateUrls urls in
        if fst r = [] then None else Some (fst r))"

section \<open>The job payload\<close>

text \<open>
  The status endpoint answers with a JSON array. Each property that the page reads from
  an element of the array is a \<open>field\<close>: it is absent (\<open>undefined\<close> in JavaScript),
  it is \<open>null\<close>, or it is present with a value of the type the data model gives it.
  This holds for \<open>job_id\<close> and \<open>status\<close> as well, so an element with no \<open>job_id\<close>
  is a value of the model. An element that is not an object (a number, a string) has
  none of the properties and is the job with every field absent. A \<open>status\<close> is any
  string, not only one of the four known ones. Properties that are present with a value
  of another type (a \<open>job_id\<close> that is a number, a \<open>urls\<close> that is a string) are
  outside the model.

  JSON numbers are modelled as finite decimals: \<open>Dec m e\<close> is the number
  \<open>m / 10 ^ e\<close>. The rounding error of IEEE doubles is not modelled.
\<close>

datatype 'a field = Absent | Null | Present 'a

datatype number = Dec int nat

text \<open>\<open>Math.round\<close>: the nearest integer, halves towards plus infinity.\<close>

definition Math_round :: "number \<Rightarrow> int" where
  "Math_round x = (case x of Dec m e \<Rightarrow> (2 * m + 10 ^ e) div (2 * 10 ^ e))"

text \<open>\<open>Math.max(0, Math.min(100, x))\<close>, the width of a progress bar.\<close>

definition clamp_percent :: "number \<Rightarrow> number" where
  "clamp_percent x =
     (case x of Dec m e \<Rightarrow>
        if m < 0 then Dec 0 0 else if 100 * 10 ^ e < m then Dec 100 0 else Dec m e)"

text \<open>A number is truthy unless it is zero.\<close>

definition truthy_number :: "number \<Rightarrow> bool" where
  "truthy_number x = (case x of Dec m e \<Rightarrow> m \<noteq> 0)"

text \<open>
  The conversion that \<open>Math.round\<close>, \<open>Math.min\<close> and \<open>Math.max\<close> apply to their
  argument, for a number or \<open>null\<close> (here \<open>None\<close>): \<open>null\<close> becomes 0.
\<close>

definition ToNumber :: "number option \<Rightarrow> number" where
  "ToNumber v = (case v of None \<Rightarrow> Dec 0 0 | Some x \<Rightarrow> x)"

record url_progress =
  u_url :: "string field"
  u_status :: "string field"
  u_stage :: "string field"
  u_local_percent :: "number field"

text \<open>An element of \<open>urls\<close> is an object or \<open>null\<close> (here \<open>None\<close>).\<close>

record progress_info =
  p_total :: "int field"
  p_success :: "int field"
  p_failed :: "int field"
  p_stage :: "string field"
  p_urls :: "url_progress option list field"

record result_info =
  r_indexed :: "int field"
  r_total_urls :: "int field"
  r_success :: "int field"
  r_failed :: "int field"

record job =
  job_id :: "string field"
  status :: "string field"
  progress_percent :: "number field"
  progress :: "progress_info field"
  result :: "result_info field"
  detail :: "string field"

section \<open>JSON.stringify\<close>

text \<open>
  The fingerprint of a poll is a string produced by \<open>JSON.stringify\<close>. The values it
  is applied to are modelled by \<open>json\<close>; an object is the list of its own properties in
  insertion order, and a property whose value is \<open>undefined\<close> is simply not in the list
  (\<open>JSON.stringify\<close> omits it).
\<close>

datatype json =
    JNull
  | JBool bool
  | JNum number
  | JStr string
  | JArr "json list"
  | JObj "(string \<times> json) list"

fun digits :: "nat \<Rightarrow> string" where
  "digits n = (if n < 10 then [char_of (48 + n)] else digits (n div 10) @ [char_of (48 + n mod 10)])"

declare digits.simps [simp del]

fun strip_zeros :: "string \<Rightarrow> string" where
  "strip_zeros [] = []"
| "strip_zeros (c # cs) =
     (let r = strip_zeros cs in if r = [] \<and> c = CHR ''0'' then [] else c # r)"

text \<open>
  The decimal text of a number: sign, integer part, and the fraction without trailing
  zeros (the exponent forms JavaScript uses beyond \<open>10 ^ 21\<close> and below \<open>10 ^ - 6\<close>
  are outside the range of the payload and not modelled).
\<close>

definition number_str :: "number \<Rightarrow> string" where
  "number_str x =
     (case x of Dec m e \<Rightarrow>
        let a = nat \<bar>m\<bar>;
            ip = digits (a div 10 ^ e);
            fd = digits (a mod 10 ^ e);
            fp = strip_zeros (replicate (e - length fd) (CHR ''0'') @ fd)
        in (if m < 0 then ''-'' else []) @ ip @ (if fp = [] then [] else ''.'' @ fp))"

definition hex_digit :: "nat \<Rightarrow> char" where
  "hex_digit n = (if n < 10 then char_of (48 + n) else char_of (87 + n))"

text \<open>The escapes of \<open>JSON.stringify\<close> for the characters of a string.\<close>

definition escape_char :: "char \<Rightarrow> string" where
  "escape_char c =
     (let n = (of_char c :: nat) in
      if n = 34 then [CHR 0x5C, CHR 0x22]
      else if n = 92 then [CHR 0x5C, CHR 0x5C]
      else if n = 8 then [CHR 0x5C, CHR ''b'']
      else if n = 9 then [CHR 0x5C, CHR ''t'']
      else if n = 10 then [CHR 0x5C, CHR ''n'']
      else if n = 12 then [CHR 0x5C, CHR ''f'']
      else if n = 13 then [CHR 0x5C, CHR ''r'']
      else if n < 32 then [CHR 0x5C, CHR ''u'', CHR ''0'', CHR ''0'', hex_digit (n div 16), hex_digit (n mod 16)]
      else [c])"

definition quote :: "string \<Rightarrow> string" where
  "quote s = [CHR 0x22] @ concat (map escape_char s) @ [CHR 0x22]"

fun join_comma :: "string list \<Rightarrow> string" where
  "join_comma [] = []"
| "join_comma [x] = x"
| "join_comma (x # y # ys) = x @ '','' @ join_comma (y # ys)"

fun JSON_stringify :: "json \<Rightarrow> string" where
  "JSON_stringify JNull = ''null''"
| "JSON_stringify (JBool b) = (if b then ''true'' else ''false'')"
| "JSON_stringify (JNum x) = number_str x"
| "JSON_stringify (JStr s) = quote s"
| "JSON_stringify (JArr xs) = ''['' @ join_comma (map JSON_stringify xs) @ '']''"
| "JSON_stringify (JObj kvs) =
     ''{'' @ join_comma (map (\<lambda>kv. quote (fst kv) @ '':'' @ JSON_stringify (snd kv)) kvs) @ ''}''"

text \<open>
  An object literal with properties that may be \<open>undefined\<close>: the defined ones, in
  order.
\<close>

fun object_literal :: "(string \<times> json option) list \<Rightarrow> json" where
  "object_literal kvs =
     JObj (concat (map (\<lambda>kv. case snd kv of None \<Rightarrow> [] | Some v \<Rightarrow> [(fst kv, v)]) kvs))"

section \<open>The fingerprint of a job list\<close>

text \<open>
  A property of an object literal whose value comes from a field: undefined when the
  field is absent, \<open>null\<close> when it is \<open>null\<close>.
\<close>

definition property :: "('a \<Rightarrow> json) \<Rightarrow> 'a field \<Rightarrow> json option" where
  "property f x = (case x of Absent \<Rightarrow> None | Null \<Rightarrow> Some JNull | Present v \<Rightarrow> Some (f v))"

text \<open>\<open>j.progress?.stage\<close>: undefined when \<open>progress\<close> is absent or \<open>null\<close>.\<close>

definition progress_stage :: "job \<Rightarrow> string field" where
  "progress_stage j = (case progress j of Present p \<Rightarrow> p_stage p | _ \<Rightarrow> Absent)"

text \<open>The object built for each job inside \<open>loadJobs\<close>.\<close>

definition projection :: "job \<Rightarrow> json" where
  "projection j =
     object_literal
       [(''id'', property JStr (job_id j)),
        (''status'', property JStr (status j)),
        (''progress'', property JNum (progress_percent j)),
        (''stage'', property JStr (progress_stage j))]"

definition jobsHash :: "job list \<Rightarrow> string" where
  "jobsHash jobs = JSON_stringify (JArr (map projection jobs))"

section \<open>Rendering (renderJob, renderJobs)\<close>

text \<open>
  \<open>renderJob\<close> returns an HTML string or throws a \<open>TypeError\<close>. The model keeps what
  the string is computed from: the outcome of the \<open>switch\<close> on the status and the
  values of the destructured variables after their defaults have been applied, where a
  value that is \<open>null\<close> is \<open>None\<close>. The markup around them is constant text and the
  stage captions and icons are left out.
\<close>

datatype js_error = TypeError

record url_view =
  uv_url :: "string field"
  uv_statusClass :: string
  uv_borderClass :: string
  uv_percent :: "int option"
  uv_bar :: "number option"

record progress_view =
  pv_stage :: "string option"
  pv_percent :: int
  pv_bar :: number
  pv_total :: "int option"
  pv_success :: "int option"
  pv_failed :: "int option"
  pv_urls :: "url_view list"
  pv_more :: nat

record result_view =
  rv_indexed :: "int option"
  rv_total_urls :: "int option"
  rv_success :: "int option"
  rv_failed :: "int option"

record job_view =
  jv_truncatedId :: string
  jv_statusText :: string
  jv_cardClass :: string
  jv_progress :: "progress_view option"
  jv_result :: "result_view option"
  jv_detail :: "string option"

text \<open>
  A destructuring default: \<open>{ x = d } = obj\<close> gives \<open>d\<close> when \<open>obj.x\<close> is undefined
  and leaves a \<open>null\<close>.
\<close>

definition or_default :: "'a \<Rightarrow> 'a field \<Rightarrow> 'a option" where
  "or_default d v = (case v of Absent \<Rightarrow> Some d | Null \<Rightarrow> None | Present x \<Rightarrow> Some x)"

text \<open>
  A list of results of which the first exception, if any, is the result: what
  \<open>Array.prototype.map\<close> does with a callback that may throw.
\<close>

fun all_or_error :: "(js_error + 'a) list \<Rightarrow> js_error + 'a list" where
  "all_or_error [] = Inr []"
| "all_or_error (Inl e # rs) = Inl e"
| "all_or_error (Inr x # rs) = (case all_or_error rs of Inl e \<Rightarrow> Inl e | Inr xs \<Rightarrow> Inr (x # xs))"

text \<open>
  The body of the \<open>allUrls.map\<close> callback. Reading \<open>u.stage\<close> of an element that is
  \<open>null\<close> throws.
\<close>

definition renderUrl :: "url_progress option \<Rightarrow> js_error + url_view" where
  "renderUrl el =
     (case el of
        None \<Rightarrow> Inl TypeError
      | Some u \<Rightarrow>
          let classes =
            (if u_status u = Present ''running'' then (''step-running'', ''border-l-oneui-blue'')
             else if u_status u = Present ''success'' then
               (''step-completed'', ''border-l-green-500'')
             else if u_status u = Present ''failed'' then (''step-failed'', ''border-l-red-500'')
             else (''bg-material-surfaceContainer'', ''border-l-gray-400''));
              shown = (case u_local_percent u of
                         Present x \<Rightarrow> if truthy_number x then Some x else None
                       | _ \<Rightarrow> None)
          in Inr \<lparr>uv_url = u_url u,
                  uv_statusClass = fst classes,
                  uv_borderClass = snd classes,
                  uv_percent = map_option Math_round shown,
                  uv_bar = (if u_status u = Present ''running''
                            then map_option clamp_percent shown else None)\<rparr>)"

text \<open>
  The progress section. \<open>urls.length\<close> is read only when the status is \<open>running\<close>,
  and throws when \<open>urls\<close> is \<open>null\<close>.
\<close>

definition renderProgress ::
  "string field \<Rightarrow> number option \<Rightarrow> progress_info \<Rightarrow> js_error + progress_view" where
  "renderProgress st percent p =
     (let total = or_default 0 (p_total p);
          success = or_default 0 (p_success p);
          failed = or_default 0 (p_failed p);
          stage = or_default [] (p_stage p);
          urls = or_default [] (p_urls p);
          section = \<lparr>pv_stage = stage,
                     pv_percent = Math_round (ToNumber percent),
                     pv_bar = clamp_percent (ToNumber percent),
                     pv_total = total,
                     pv_success = success,
                     pv_failed = failed,
                     pv_urls = [],
                     pv_more = 0\<rparr>
      in if st = Present ''running'' then
           (case urls of
              None \<Rightarrow> Inl TypeError
            | Some us \<Rightarrow>
                if length us > 0 then
                  (case all_or_error (map renderUrl (take 10 us)) of
                     Inl e \<Rightarrow> Inl e
                   | Inr vs \<Rightarrow>
                       Inr (section\<lparr>pv_urls := vs,
                                    pv_more := (if length us > 10 then length us - 10 else 0)\<rparr>))
                else Inr section)
         else Inr section)"

definition renderResult :: "result_info \<Rightarrow> result_view" where
  "renderResult r =
     \<lparr>rv_indexed = or_default 0 (r_indexed r),
      rv_total_urls = or_default 0 (r_total_urls r),
      rv_success = or_default 0 (r_success r),
      rv_failed = or_default 0 (r_failed r)\<rparr>"

text \<open>
  \<open>renderJob\<close>. \<open>job_id.substring\<close> throws when \<open>job_id\<close> is undefined or \<open>null\<close>;
  \<open>progress\<close>, \<open>result\<close> and \<open>detail\<close> are tested for truthiness, so a \<open>null\<close> one
  is skipped like an absent one, and so is an empty \<open>detail\<close>.
\<close>

definition renderJob :: "job \<Rightarrow> js_error + job_view" where
  "renderJob j =
     (let progress_percent = or_default (Dec 0 0) (progress_percent j) in
      case job_id j of
        Present ident \<Rightarrow>
          (let truncatedId = take 8 ident;
               labels =
                 (if status j = Present ''running'' then
                    (''In Corso'', ''step-running border-l-4 border-l-oneui-blue'')
                  else if status j = Present ''queued'' then
                    (''In Coda'', ''border-l-4 border-l-yellow-400'')
                  else if status j = Present ''completed'' then
                    (''Completato'', ''step-completed border-l-4 border-l-green-500'')
                  else if status j = Present ''failed'' then
                    (''Fallito'', ''step-failed border-l-4 border-l-red-500'')
                  else (''Sconosciuto'', ''border-l-4 border-l-gray-400''));
               progressSection =
                 (case progress j of
                    Present p \<Rightarrow> map_sum id Some (renderProgress (status j) progress_percent p)
                  | _ \<Rightarrow> Inr None)
           in case progressSection of
                Inl e \<Rightarrow> Inl e
              | Inr ps \<Rightarrow>
                  Inr \<lparr>jv_truncatedId = truncatedId,
                       jv_statusText = fst labels,
                       jv_cardClass = snd labels,
                       jv_progress = ps,
                       jv_result = (case result j of
                                      Present r \<Rightarrow> Some (renderResult r)
                                    | _ \<Rightarrow> None),
                       jv_detail = (case detail j of
                                      Present d \<Rightarrow>
                                        if d \<noteq> [] \<and> status j = Present ''failed''
                                        then Some d else None
                                    | _ \<Rightarrow> None)\<rparr>)
      | _ \<Rightarrow> Inl TypeError)"

text \<open>
  The comparator given to \<open>jobs.sort\<close>: \<open>statusOrder[a.status] - statusOrder[b.status]\<close>.
  For a status that is not in the table, or is undefined or \<open>null\<close>, the lookup is not
  a number and the difference is \<open>NaN\<close>, here \<open>None\<close>.
\<close>

definition statusOrder :: "string field \<Rightarrow> int option" where
  "statusOrder s =
     (if s = Present ''running'' then Some 0
      else if s = Present ''queued'' then Some 1
      else if s = Present ''completed'' then Some 2
      else if s = Present ''failed'' then Some 3
      else None)"

definition compareJobs :: "job \<Rightarrow> job \<Rightarrow> int option" where
  "compareJobs a b =
     (case (statusOrder (status a), statusOrder (status b)) of
        (Some x, Some y) \<Rightarrow> Some (x - y)
      | _ \<Rightarrow> None)"

text \<open>
  \<open>Array.prototype.sort\<close> belongs to the JavaScript engine. With a comparator that
  answers \<open>NaN\<close> for some pairs, as this one does as soon as a status is outside the
  table, the language leaves the resulting order to the implementation. The sort is
  therefore a parameter \<open>srt\<close> of the functions that call it, of which only this is
  required: it returns a rearrangement of the array it is given.
\<close>

type_synonym array_sort = "(job \<Rightarrow> job \<Rightarrow> int option) \<Rightarrow> job list \<Rightarrow> job list"

definition rearranges :: "array_sort \<Rightarrow> bool" where
  "rearranges srt \<longleftrightarrow> (\<forall>cmp xs. mset (srt cmp xs) = mset xs)"

text \<open>
  One such sort, used where a concrete run is computed: the stable insertion sort that
  reads \<open>NaN\<close> as 0. The arrays of these runs hold one job, or two jobs of known
  status that are in order already; a stable sort returns such an array as it is.
\<close>

fun insert_sorted :: "('a \<Rightarrow> 'a \<Rightarrow> int option) \<Rightarrow> 'a \<Rightarrow> 'a list \<Rightarrow> 'a list" where
  "insert_sorted cmp x [] = [x]"
| "insert_sorted cmp x (y # ys) =
     (if (case cmp x y of Some d \<Rightarrow> d < 0 | None \<Rightarrow> False) then x # y # ys
      else y # insert_sorted cmp x ys)"

definition insertion_sort :: "('a \<Rightarrow> 'a \<Rightarrow> int option) \<Rightarrow> 'a list \<Rightarrow> 'a list" where
  "insertion_sort cmp xs = foldl (\<lambda>acc x. insert_sorted cmp x acc) [] xs"

section \<open>The import manager\<close>

text \<open>
  What the page shows in the jobs list and in the three counters, and the calls the
  manager makes to its collaborators, in the order they are made.
\<close>

datatype jobs_list_content = EmptyState | JobCards "job_view list"

datatype effect =
    Fetch
  | CallRenderJobs "job list"
  | CallRenderEmptyState
  | CallUpdateStats nat nat nat
  | ShowNotification string string
  | SetInterval nat
  | ClearInterval
  | Abort
  | LoadDatabaseStats

text \<open>
  The fields of \<open>ImportManager\<close> that the job polling reads or writes.
  \<open>refreshInterval\<close> holds the period of the armed interval timer; \<open>aborted\<close> is
  \<open>_abortController.signal.aborted\<close>; \<open>pending\<close> counts the calls of \<open>loadJobs\<close>
  that are suspended at their \<open>await\<close>. The shortcode list, the accordion timeout and
  the loading state of the buttons are not part of the model.
\<close>

record manager =
  lastJobsHash :: "string option"
  hasActiveJobs :: bool
  isRefreshing :: bool
  refreshInterval :: "nat option"
  aborted :: bool
  pending :: nat
  jobsListContent :: "jobs_list_content option"
  statsShown :: "(nat \<times> nat \<times> nat) option"
  effects :: "effect list"

definition emit :: "effect \<Rightarrow> manager \<Rightarrow> manager" where
  "emit e m = m\<lparr>effects := effects m @ [e]\<rparr>"

definition showNotification :: "string \<Rightarrow> string \<Rightarrow> manager \<Rightarrow> manager" where
  "showNotification message type m = emit (ShowNotification message type) m"

definition renderEmptyState :: "manager \<Rightarrow> manager" where
  "renderEmptyState m = (emit CallRenderEmptyState m)\<lparr>jobsListContent := Some EmptyState\<rparr>"

text \<open>
  \<open>renderJobs\<close> sorts the array it is given in place and then builds the cards. It
  returns the array as the caller sees it afterwards, or the exception thrown by
  \<open>renderJob\<close>, together with the state it leaves: when \<open>renderJob\<close> throws, the content
  of the list has not been assigned. The element \<open>jobsListContent\<close> is taken to be
  on the page.
\<close>

definition renderJobs :: "array_sort \<Rightarrow> job list \<Rightarrow> manager \<Rightarrow> (js_error + job list) \<times> manager" where
  "renderJobs srt jobs m =
     (let m1 = emit (CallRenderJobs jobs) m in
      if jobs = [] then (Inr jobs, renderEmptyState m1)
      else
        let sortedJobs = srt compareJobs jobs in
        case all_or_error (map renderJob sortedJobs) of
          Inl e \<Rightarrow> (Inl e, m1)
        | Inr cards \<Rightarrow> (Inr sortedJobs, m1\<lparr>jobsListContent := Some (JobCards cards)\<rparr>))"

definition updateStats :: "nat \<Rightarrow> nat \<Rightarrow> nat \<Rightarrow> manager \<Rightarrow> manager" where
  "updateStats completed running queued m =
     (emit (CallUpdateStats completed running queued) m)
       \<lparr>statsShown := Some (completed, running, queued)\<rparr>"

definition updateJobStats :: "job list \<Rightarrow> manager \<Rightarrow> manager" where
  "updateJobStats jobs m =
     updateStats
       (length (filter (\<lambda>j. status j = Present ''completed'') jobs))
       (length (filter (\<lambda>j. status j = Present ''running'') jobs))
       (length (filter (\<lambda>j. status j = Present ''queued'') jobs))
       m"

definition stopPeriodicRefresh :: "manager \<Rightarrow> manager" where
  "stopPeriodicRefresh m =
     (if refreshInterval m \<noteq> None then (emit ClearInterval m)\<lparr>refreshInterval := None\<rparr>
      else m)"

definition optimizeRefreshInterval :: "manager \<Rightarrow> manager" where
  "optimizeRefreshInterval m =
     (let m1 = stopPeriodicRefresh m in
      if hasActiveJobs m1 then (emit (SetInterval 1500) m1)\<lparr>refreshInterval := Some 1500\<rparr>
      else (emit (SetInterval 10000) m1)\<lparr>refreshInterval := Some 10000\<rparr>)"

definition startPeriodicRefresh :: "manager \<Rightarrow> manager" where
  "startPeriodicRefresh m = optimizeRefreshInterval m"

definition cleanup :: "manager \<Rightarrow> manager" where
  "cleanup m =
     (let m1 = stopPeriodicRefresh m;
          m2 = (emit Abort m1)\<lparr>aborted := True\<rparr>
      in m2\<lparr>isRefreshing := False, lastJobsHash := None\<rparr>)"

subsection \<open>loadJobs\<close>

text \<open>
  What the awaited \<open>fetch\<close> and \<open>response.json()\<close> can deliver: a rejection with an
  \<open>AbortError\<close>, any other rejection of \<open>fetch\<close>, or a response with its status and
  its body. The body either is an array of jobs or it is \<open>BodyInvalid\<close>: text that
  \<open>response.json()\<close> rejects, or a value that is not an array or has a \<open>null\<close>
  element, on which \<open>jobs.map\<close> throws. In both cases the exception is raised before
  \<open>loadJobs\<close> has written any field.
\<close>

datatype body = BodyJobs "job list" | BodyInvalid

datatype fetch_result = AbortError | NetworkError | Response nat body

definition response_ok :: "nat \<Rightarrow> bool" where
  "response_ok st = (200 \<le> st \<and> st \<le> 299)"

text \<open>
  The exceptions that reach the \<open>catch\<close> block: the one named \<open>AbortError\<close>, and every
  other (an \<open>Error\<close>, a \<open>TypeError\<close>, a \<open>SyntaxError\<close>).
\<close>

datatype exn = AbortException | OtherException

text \<open>The branch for status 404.\<close>

definition on_not_found :: "manager \<Rightarrow> manager" where
  "on_not_found m =
     (let emptyHash = ''empty'' in
      if lastJobsHash m \<noteq> Some emptyHash then
        let m1 = renderEmptyState m;
            m2 = updateStats 0 0 0 m1;
            m3 = m2\<lparr>lastJobsHash := Some emptyHash\<rparr>;
            m4 = m3\<lparr>hasActiveJobs := False\<rparr>
        in optimizeRefreshInterval m4
      else m)"

text \<open>
  The statements that follow \<open>const jobs = await response.json()\<close>, in two parts: up to
  the call of \<open>renderJobs\<close>, which may throw, and from \<open>updateJobStats\<close> on. The result
  is the exception thrown, if any, and the state at that point. The active flag is
  written before \<open>renderJobs\<close> is called.
\<close>

definition after_render :: "bool \<Rightarrow> job list \<Rightarrow> manager \<Rightarrow> manager" where
  "after_render hadActiveJobs jobs m =
     (let m2 = updateJobStats jobs m;
          m3 = (if hadActiveJobs \<noteq> hasActiveJobs m2 then optimizeRefreshInterval m2 else m2);
          hasCompleted = list_ex (\<lambda>job. status job = Present ''completed'') jobs
      in if hasCompleted then emit LoadDatabaseStats m3 else m3)"

definition on_jobs :: "array_sort \<Rightarrow> job list \<Rightarrow> manager \<Rightarrow> exn option \<times> manager" where
  "on_jobs srt jobs m =
     (let jobsHash = jobsHash jobs;
          activeJobs =
            filter (\<lambda>j. status j = Present ''running'' \<or> status j = Present ''queued'') jobs;
          hadActiveJobs = hasActiveJobs m;
          m1 = m\<lparr>hasActiveJobs := (length activeJobs > 0)\<rparr>
      in if lastJobsHash m1 \<noteq> Some jobsHash then
           (case renderJobs srt jobs m1 of
              (Inl e, m') \<Rightarrow> (Some OtherException, m')
            | (Inr sortedJobs, m') \<Rightarrow>
                (None, after_render hadActiveJobs sortedJobs (m'\<lparr>lastJobsHash := Some jobsHash\<rparr>)))
         else (None, after_render hadActiveJobs jobs m1))"

text \<open>The \<open>try\<close> block from the first \<open>await\<close> on.\<close>

definition loadJobs_body :: "array_sort \<Rightarrow> fetch_result \<Rightarrow> manager \<Rightarrow> exn option \<times> manager" where
  "loadJobs_body srt r m =
     (case r of
        AbortError \<Rightarrow> (Some AbortException, m)
      | NetworkError \<Rightarrow> (Some OtherException, m)
      | Response st b \<Rightarrow>
          if \<not> response_ok st then
            (if st = 404 then (None, on_not_found m) else (Some OtherException, m))
          else (case b of
                  BodyInvalid \<Rightarrow> (Some OtherException, m)
                | BodyJobs jobs \<Rightarrow> on_jobs srt jobs m))"

text \<open>The \<open>catch\<close> block.\<close>

definition on_error :: "manager \<Rightarrow> manager" where
  "on_error m = showNotification ''Errore nel caricamento dei job'' ''destructive'' m"

definition loadJobs_catch :: "exn \<Rightarrow> manager \<Rightarrow> manager" where
  "loadJobs_catch e m = (if e \<noteq> AbortException then on_error m else m)"

text \<open>The \<open>try\<close> block with its \<open>catch\<close>.\<close>

definition loadJobs_try :: "array_sort \<Rightarrow> fetch_result \<Rightarrow> manager \<Rightarrow> manager" where
  "loadJobs_try srt r m =
     (case loadJobs_body srt r m of
        (None, m') \<Rightarrow> m'
      | (Some e, m') \<Rightarrow> loadJobs_catch e m')"

text \<open>The \<open>finally\<close> block.\<close>

definition loadJobs_finally :: "manager \<Rightarrow> manager" where
  "loadJobs_finally m = m\<lparr>isRefreshing := False, pending := pending m - 1\<rparr>"

text \<open>
  A call of \<open>loadJobs\<close> runs in two uninterrupted pieces. \<open>loadJobs_begin\<close> is the
  piece up to the \<open>await\<close>: the guard, the flag and the request. \<open>loadJobs_resume\<close> is
  the piece run when the awaited promise settles. Between the two the page may handle
  any other event. The two \<open>await\<close>s of the source are one suspension here, since
  nothing is written between them. Once the signal is aborted the promise rejects with
  an \<open>AbortError\<close>, whatever the server has sent.
\<close>

definition loadJobs_begin :: "manager \<Rightarrow> manager" where
  "loadJobs_begin m =
     (if isRefreshing m then m
      else emit Fetch (m\<lparr>isRefreshing := True, pending := pending m + 1\<rparr>))"

definition loadJobs_resume :: "array_sort \<Rightarrow> fetch_result \<Rightarrow> manager \<Rightarrow> manager" where
  "loadJobs_resume srt r m =
     loadJobs_finally (loadJobs_try srt (if aborted m then AbortError else r) m)"

text \<open>A call that runs to its end before the page handles another event.\<close>

definition loadJobs :: "array_sort \<Rightarrow> fetch_result \<Rightarrow> manager \<Rightarrow> manager" where
  "loadJobs srt r m = (if isRefreshing m then m else loadJobs_resume srt r (loadJobs_begin m))"

text \<open>The constructor: the initial fields, the timer, and the first \<open>loadJobs\<close>.\<close>

definition initial_fields :: manager where
  "initial_fields =
     \<lparr>lastJobsHash = None, hasActiveJobs = False, isRefreshing = False,
      refreshInterval = None, aborted = False, pending = 0,
      jobsListContent = None, statsShown = None, effects = []\<rparr>"

definition new_ImportManager :: manager where
  "new_ImportManager = loadJobs_begin (startPeriodicRefresh initial_fields)"

subsection \<open>Events of the page\<close>

text \<open>
  The page is single-threaded: it handles one event at a time. The interval timer fires
  only while it is armed; the refresh button, a successful submit and a reimport call
  \<open>loadJobs\<close> directly; a promise settles only if a call is suspended on it;
  \<open>beforeunload\<close> and \<open>pagehide\<close> call \<open>cleanup\<close>.
\<close>

datatype event = TimerFires | RefreshRequested | FetchSettles fetch_result | PageUnloads

definition step :: "array_sort \<Rightarrow> manager \<Rightarrow> event \<Rightarrow> manager" where
  "step srt m ev =
     (case ev of
        TimerFires \<Rightarrow> if refreshInterval m = None then m else loadJobs_begin m
      | RefreshRequested \<Rightarrow> loadJobs_begin m
      | FetchSettles r \<Rightarrow> if pending m = 0 then m else loadJobs_resume srt r m
      | PageUnloads \<Rightarrow> cleanup m)"

definition run :: "array_sort \<Rightarrow> manager \<Rightarrow> event list \<Rightarrow> manager" where
  "run srt m evs = foldl (step srt) m evs"

text \<open>
  Requests of the status endpoint that are on the network: none once aborted (a
  \<open>fetch\<close> called with an aborted signal rejects without sending a request).
\<close>

definition inFlight :: "manager \<Rightarrow> nat" where
  "inFlight m = (if aborted m then 0 else pending m)"

text \<open>Observations on the trace of calls.\<close>

definition renderCalls :: "manager \<Rightarrow> nat" where
  "renderCalls m = length (filter (\<lambda>e. case e of CallRenderJobs js \<Rightarrow> True | _ \<Rightarrow> False) (effects m))"

definition emptyRenders :: "manager \<Rightarrow> nat" where
  "emptyRenders m = length (filter (\<lambda>e. e = CallRenderEmptyState) (effects m))"

definition notifications :: "manager \<Rightarrow> nat" where
  "notifications m =
     length (filter (\<lambda>e. case e of ShowNotification a b \<Rightarrow> True | _ \<Rightarrow> False) (effects m))"

definition timerArms :: "manager \<Rightarrow> nat" where
  "timerArms m = length (filter (\<lambda>e. case e of SetInterval n \<Rightarrow> True | _ \<Rightarrow> False) (effects m))"

definition fetches :: "manager \<Rightarrow> nat" where
  "fetches m = length (filter (\<lambda>e. e = Fetch) (effects m))"

text \<open>What the page has been shown and told: everything but requests and aborts.\<close>

definition observed :: "manager \<Rightarrow> effect list" where
  "observed m = filter (\<lambda>e. e \<noteq> Fetch \<and> e \<noteq> Abort) (effects m)"

text \<open>The state \<open>cleanup\<close> leaves behind.\<close>

definition disposed :: "manager \<Rightarrow> bool" where
  "disposed m \<longleftrightarrow> aborted m \<and> refreshInterval m = None \<and> lastJobsHash m = None"

section \<open>Terms of the specification\<close>

text \<open>
  The aggregate counts of a snapshot (completed, running, queued) and whether a snapshot
  has an active job.
\<close>

definition counts :: "job list \<Rightarrow> nat \<times> nat \<times> nat" where
  "counts jobs = (length (filter (\<lambda>j. status j = Present ''completed'') jobs),
       length (filter (\<lambda>j. status j = Present ''running'') jobs),
       length (filter (\<lambda>j. status j = Present ''queued'') jobs))"

definition anyActive :: "job list \<Rightarrow> bool" where
  "anyActive jobs =
     (\<exists>j \<in> set jobs. status j = Present ''running'' \<or> status j = Present ''queued'')"

text \<open>A job array every element of which \<open>renderJob\<close> renders without throwing.\<close>

definition renderable :: "job list \<Rightarrow> bool" where
  "renderable jobs = list_all (\<lambda>j. \<not> isl (renderJob j)) jobs"

text \<open>
  The two ways a refresh fails other than by an abort. The request fails: a network
  error, an error status other than 404, a body that is not a job array. Or the array
  has arrived and an exception is thrown while it is rendered.
\<close>

fun refresh_fails :: "fetch_result \<Rightarrow> bool" where
  "refresh_fails AbortError = False"
| "refresh_fails NetworkError = True"
| "refresh_fails (Response st b) =
     (if response_ok st then b = BodyInvalid else st \<noteq> 404)"

fun render_fails :: "array_sort \<Rightarrow> fetch_result \<Rightarrow> manager \<Rightarrow> bool" where
  "render_fails srt (Response st (BodyJobs jobs)) m =
     (response_ok st \<and> fst (on_jobs srt jobs m) \<noteq> None)"
| "render_fails srt r m = False"

text \<open>
  A sequence of polls, each run to its end, that all receive status 200 and a job array.
\<close>

definition polls :: "array_sort \<Rightarrow> manager \<Rightarrow> job list list \<Rightarrow> manager" where
  "polls srt m jss = foldl (\<lambda>m jobs. loadJobs srt (Response 200 (BodyJobs jobs)) m) m jss"

text \<open>Events none of whose job arrays makes \<open>renderJob\<close> throw.\<close>

fun renderable_event :: "event \<Rightarrow> bool" where
  "renderable_event (FetchSettles (Response st (BodyJobs jobs))) = renderable jobs"
| "renderable_event ev = True"

text \<open>
  Agreement of the timer, the flags and the page, as the constructor establishes it:
  while the signal is not aborted the timer is armed with the period that belongs to the
  active flag and exactly the call that holds the guard is suspended; and while the
  stored fingerprint is the one of the empty state, the page shows the empty state, zero
  counts and no active job. It is kept by every event whose job array is rendered
  without an exception.
\<close>

definition consistent :: "manager \<Rightarrow> bool" where
  "consistent m \<longleftrightarrow>
     (\<not> aborted m \<longrightarrow> refreshInterval m = Some (if hasActiveJobs m then 1500 else 10000))
   \<and> (\<not> aborted m \<longrightarrow> pending m = (if isRefreshing m then 1 else 0))
   \<and> (lastJobsHash m = Some ''empty'' \<longrightarrow>
        \<not> hasActiveJobs m \<and> statsShown m = Some (0, 0, 0) \<and> jobsListContent m = Some EmptyState)"

text \<open>
  The part of it that every event keeps, whatever is rendered: exactly the call that
  holds the guard is suspended.
\<close>

definition guarded :: "manager \<Rightarrow> bool" where
  "guarded m \<longleftrightarrow> (\<not> aborted m \<longrightarrow> pending m = (if isRefreshing m then 1 else 0))"

text \<open>
  Two jobs agree on what the fingerprint reads, and on what the specification says it
  reads (the progress percentage rounded).
\<close>

definition same_projection :: "job \<Rightarrow> job \<Rightarrow> bool" where
  "same_projection a b \<longleftrightarrow>
     job_id a = job_id b \<and> status a = status b
   \<and> progress_percent a = progress_percent b \<and> progress_stage a = progress_stage b"

definition same_rounded_projection :: "job \<Rightarrow> job \<Rightarrow> bool" where
  "same_rounded_projection a b \<longleftrightarrow>
     job_id a = job_id b \<and> status a = status b
   \<and> map_field Math_round (progress_percent a) = map_field Math_round (progress_percent b)
   \<and> progress_stage a = progress_stage b"

text \<open>The closed set of statuses of the data model.\<close>

definition known_status :: "string field \<Rightarrow> bool" where
  "known_status s \<longleftrightarrow>
     s = Present ''queued'' \<or> s = Present ''running'' \<or> s = Present ''completed''
   \<or> s = Present ''failed''"

text \<open>Payloads and states used as examples below.\<close>

definition job_running :: job where
  "job_running =
     \<lparr>job_id = Present ''0b9a52c1-7f'', status = Present ''running'',
      progress_percent = Present (Dec 402 1),
      progress = Present \<lparr>p_total = Present 3, p_success = Present 1, p_failed = Absent,
                          p_stage = Present ''stt'', p_urls = Absent\<rparr>,
      result = Absent, detail = Absent\<rparr>"

definition job_completed :: job where
  "job_completed =
     \<lparr>job_id = Present ''5d2e90aa-31'', status = Present ''completed'',
      progress_percent = Present (Dec 100 0), progress = Absent,
      result = Present \<lparr>r_indexed = Present 2, r_total_urls = Present 2, r_success = Present 2,
                        r_failed = Absent\<rparr>,
      detail = Absent\<rparr>"

definition job_unknown :: job where
  "job_unknown =
     \<lparr>job_id = Present ''c41f7e08-9b'', status = Present ''paused'', progress_percent = Absent,
      progress = Absent, result = Absent, detail = Absent\<rparr>"

text \<open>A running job that has lost its \<open>job_id\<close>.\<close>

definition job_without_id :: job where
  "job_without_id =
     \<lparr>job_id = Absent, status = Present ''running'', progress_percent = Present (Dec 10 0),
      progress = Absent, result = Absent, detail = Absent\<rparr>"

text \<open>The manager when the constructor has armed the timer, before the first poll.\<close>

definition idle_manager :: manager where
  "idle_manager = startPeriodicRefresh initial_fields"

section \<open>Properties\<close>

subsection \<open>Properties of the validation\<close>

lemma startsWith_iff: "startsWith s d \<longleftrightarrow> (\<exists>q. s = d @ q)"
  by (induction s d rule: startsWith.induct) auto

lemma includes_iff: "includes_str s d \<longleftrightarrow> (\<exists>p q. s = p @ d @ q)"
proof (induction s)
  case Nil
  then show ?case by auto
next
  case (Cons c cs)
  show ?case
  proof
    assume "includes_str (c # cs) d"
    then consider "startsWith (c # cs) d" | "includes_str cs d" by auto
    then show "\<exists>p q. c # cs = p @ d @ q"
    proof cases
      case 1
      then obtain q where "c # cs = d @ q" by (auto simp: startsWith_iff)
      then have "c # cs = [] @ d @ q" by simp
      then show ?thesis by blast
    next
      case 2
      then obtain p q where "cs = p @ d @ q" using Cons.IH by auto
      then have "c # cs = (c # p) @ d @ q" by simp
      then show ?thesis by blast
    qed
  next
    assume "\<exists>p q. c # cs = p @ d @ q"
    then obtain p q where pq: "c # cs = p @ d @ q" by auto
    show "includes_str (c # cs) d"
    proof (cases p)
      case Nil
      with pq have "startsWith (c # cs) d" by (auto simp: startsWith_iff)
      then show ?thesis by simp
    next
      case (Cons a p')
      with pq have "cs = p' @ d @ q" by simp
      then have "includes_str cs d" using Cons.IH by blast
      then show ?thesis by simp
    qed
  qed
qed

lemma foldl_validate_step:
  "foldl validate_step (v, i) urls =
     (v @ filter isValid urls, i @ filter (\<lambda>u. \<not> isValid u) urls)"
  by (induction urls arbitrary: v i) (simp_all add: validate_step_def)

lemma validateUrls_filter:
  "validateUrls urls = (filter isValid urls, filter (\<lambda>u. \<not> isValid u) urls)"
  by (simp add: validateUrls_def foldl_validate_step)

lemma isValid_iff:
  "isValid url \<longleftrightarrow>
     (\<exists>domain \<in> set supportedDomains. \<exists>p q. toLowerCase url = p @ domain @ q)"
  by (simp add: isValid_def list_ex_iff includes_iff)

subsection \<open>Sorting and rendering\<close>

lemma mset_insert_sorted: "mset (insert_sorted cmp x ys) = add_mset x (mset ys)"
  by (induction ys) simp_all

lemma mset_foldl_insert_sorted:
  "mset (foldl (\<lambda>acc x. insert_sorted cmp x acc) acc xs) = mset acc + mset xs"
  by (induction xs arbitrary: acc) (simp_all add: mset_insert_sorted)

lemma rearranges_insertion_sort: "rearranges insertion_sort"
  by (simp add: rearranges_def insertion_sort_def mset_foldl_insert_sorted)

lemma rearranges_mset: "rearranges srt \<Longrightarrow> mset (srt cmp xs) = mset xs"
  by (simp add: rearranges_def)

lemma rearranges_set: "rearranges srt \<Longrightarrow> set (srt cmp xs) = set xs"
  using rearranges_mset by (metis set_mset_mset)

lemma rearranges_count:
  "rearranges srt \<Longrightarrow> length (filter P (srt cmp xs)) = length (filter P xs)"
  using rearranges_mset by (metis mset_filter size_mset)

lemma all_or_error_isl: "isl (all_or_error rs) \<longleftrightarrow> (\<exists>r \<in> set rs. isl r)"
  by (induction rs rule: all_or_error.induct) (auto split: sum.splits)

lemma all_or_error_Inr:
  "all_or_error rs = Inr xs \<Longrightarrow> rs = map Inr xs"
  by (induction rs arbitrary: xs rule: all_or_error.induct) (auto split: sum.splits)

lemma all_or_error_map_isl:
  "isl (all_or_error (map f xs)) \<longleftrightarrow> (\<exists>x \<in> set xs. isl (f x))"
  by (simp add: all_or_error_isl)

lemma renderable_iff: "renderable jobs \<longleftrightarrow> (\<forall>j \<in> set jobs. \<not> isl (renderJob j))"
  by (simp add: renderable_def list_all_iff)

lemma renderable_sorted:
  "rearranges srt \<Longrightarrow> renderable jobs \<Longrightarrow> \<not> isl (all_or_error (map renderJob (srt cmp jobs)))"
  by (simp add: all_or_error_map_isl renderable_iff rearranges_set)

lemma isl_case_sum: "isl (case s of Inl e \<Rightarrow> Inl e | Inr v \<Rightarrow> Inr (g v)) = isl s"
  by (cases s) simp_all

lemma isl_map_sum_iff: "isl (map_sum f g s) = isl s"
  by (cases s) simp_all

lemma renderUrl_isl: "isl (renderUrl el) \<longleftrightarrow> el = None"
  by (cases el) (simp_all add: renderUrl_def Let_def)

lemma renderProgress_isl:
  "isl (renderProgress st x p) \<longleftrightarrow>
     st = Present ''running'' \<and>
     (p_urls p = Null \<or> (\<exists>us. p_urls p = Present us \<and> None \<in> set (take 10 us)))"
proof (cases "p_urls p")
  case Absent
  then show ?thesis by (simp add: renderProgress_def Let_def or_default_def)
next
  case Null
  then show ?thesis by (simp add: renderProgress_def Let_def or_default_def)
next
  case (Present us)
  then show ?thesis
    by (cases "us = []")
       (auto simp add: renderProgress_def Let_def or_default_def isl_case_sum
          all_or_error_map_isl renderUrl_isl)
qed

lemma renderJob_isl:
  "isl (renderJob j) \<longleftrightarrow>
     (\<forall>i. job_id j \<noteq> Present i) \<or>
     (\<exists>p. progress j = Present p
        \<and> isl (renderProgress (status j) (or_default (Dec 0 0) (progress_percent j)) p))"
proof (cases "job_id j")
  case (Present i)
  then show ?thesis
    by (cases "progress j")
       (simp_all add: renderJob_def Let_def isl_case_sum isl_map_sum_iff del: if_split)
qed (simp_all add: renderJob_def Let_def)

lemma renderJobs_effects:
  "effects (snd (renderJobs srt jobs m)) =
     effects m @ (if jobs = [] then [CallRenderJobs jobs, CallRenderEmptyState] else [CallRenderJobs jobs])"
  by (simp add: renderJobs_def Let_def renderEmptyState_def emit_def split: sum.splits)

lemma renderJobs_fields:
  "lastJobsHash (snd (renderJobs srt jobs m)) = lastJobsHash m"
  "hasActiveJobs (snd (renderJobs srt jobs m)) = hasActiveJobs m"
  "isRefreshing (snd (renderJobs srt jobs m)) = isRefreshing m"
  "refreshInterval (snd (renderJobs srt jobs m)) = refreshInterval m"
  "aborted (snd (renderJobs srt jobs m)) = aborted m"
  "pending (snd (renderJobs srt jobs m)) = pending m"
  "statsShown (snd (renderJobs srt jobs m)) = statsShown m"
  by (simp_all add: renderJobs_def Let_def renderEmptyState_def emit_def split: sum.splits)

lemma renderJobs_throws_iff:
  "isl (fst (renderJobs srt jobs m)) \<longleftrightarrow>
     jobs \<noteq> [] \<and> isl (all_or_error (map renderJob (srt compareJobs jobs)))"
  by (simp add: renderJobs_def Let_def split: sum.splits)

lemma renderJobs_thrown:
  assumes "fst (renderJobs srt jobs m) = Inl e"
  shows "snd (renderJobs srt jobs m) = emit (CallRenderJobs jobs) m"
  using assms by (simp add: renderJobs_def Let_def split: if_splits sum.splits)

lemma renderJobs_done:
  assumes "fst (renderJobs srt jobs m) = Inr js"
  shows "js = (if jobs = [] then jobs else srt compareJobs jobs)"
    and "\<exists>cards. all_or_error (map renderJob js) = Inr cards
           \<and> jobsListContent (snd (renderJobs srt jobs m)) =
               Some (if jobs = [] then EmptyState else JobCards cards)"
  using assms
  by (auto simp add: renderJobs_def Let_def renderEmptyState_def emit_def
      split: if_splits sum.splits)

lemma renderJobs_renderable:
  assumes "rearranges srt" "renderable jobs"
  shows "\<exists>js. fst (renderJobs srt jobs m) = Inr js"
  using renderJobs_throws_iff [of srt jobs m] renderable_sorted [OF assms, of compareJobs]
  by (cases "fst (renderJobs srt jobs m)") auto

lemma renderJobs_done_mset:
  assumes "rearranges srt" "fst (renderJobs srt jobs m) = Inr js"
  shows "mset js = mset jobs"
  using renderJobs_done(1) [OF assms(2)] assms(1) by (simp add: rearranges_mset)

subsection \<open>The statements after the response\<close>

lemma optimizeRefreshInterval_fields:
  "lastJobsHash (optimizeRefreshInterval m) = lastJobsHash m"
  "hasActiveJobs (optimizeRefreshInterval m) = hasActiveJobs m"
  "isRefreshing (optimizeRefreshInterval m) = isRefreshing m"
  "aborted (optimizeRefreshInterval m) = aborted m"
  "pending (optimizeRefreshInterval m) = pending m"
  "statsShown (optimizeRefreshInterval m) = statsShown m"
  "jobsListContent (optimizeRefreshInterval m) = jobsListContent m"
  "refreshInterval (optimizeRefreshInterval m) = Some (if hasActiveJobs m then 1500 else 10000)"
  by (simp_all add: optimizeRefreshInterval_def stopPeriodicRefresh_def Let_def emit_def)

lemma optimizeRefreshInterval_effects:
  "effects (optimizeRefreshInterval m) =
     effects m @ (if refreshInterval m \<noteq> None then [ClearInterval] else [])
       @ [SetInterval (if hasActiveJobs m then 1500 else 10000)]"
  by (simp add: optimizeRefreshInterval_def stopPeriodicRefresh_def Let_def emit_def)

lemma updateJobStats_fields:
  "lastJobsHash (updateJobStats jobs m) = lastJobsHash m"
  "hasActiveJobs (updateJobStats jobs m) = hasActiveJobs m"
  "isRefreshing (updateJobStats jobs m) = isRefreshing m"
  "refreshInterval (updateJobStats jobs m) = refreshInterval m"
  "aborted (updateJobStats jobs m) = aborted m"
  "pending (updateJobStats jobs m) = pending m"
  "jobsListContent (updateJobStats jobs m) = jobsListContent m"
  "statsShown (updateJobStats jobs m) = Some (counts jobs)"
  "effects (updateJobStats jobs m) =
     effects m @ [CallUpdateStats (fst (counts jobs)) (fst (snd (counts jobs))) (snd (snd (counts jobs)))]"
  by (simp_all add: updateJobStats_def updateStats_def emit_def counts_def)

lemma counts_mset: "mset js = mset jobs \<Longrightarrow> counts js = counts jobs"
  unfolding counts_def by (metis mset_filter size_mset)

lemma after_render_fields:
  "lastJobsHash (after_render had jobs m) = lastJobsHash m"
  "hasActiveJobs (after_render had jobs m) = hasActiveJobs m"
  "isRefreshing (after_render had jobs m) = isRefreshing m"
  "aborted (after_render had jobs m) = aborted m"
  "pending (after_render had jobs m) = pending m"
  "jobsListContent (after_render had jobs m) = jobsListContent m"
  "statsShown (after_render had jobs m) = Some (counts jobs)"
  by (simp_all add: after_render_def Let_def emit_def updateJobStats_fields
      optimizeRefreshInterval_fields)

lemma after_render_refreshInterval:
  "refreshInterval (after_render had jobs m) =
     (if had \<noteq> hasActiveJobs m then Some (if hasActiveJobs m then 1500 else 10000)
      else refreshInterval m)"
  by (auto simp add: after_render_def Let_def emit_def updateJobStats_fields
      optimizeRefreshInterval_fields)

lemma after_render_effects:
  "effects (after_render had jobs m) =
     effects m
     @ [CallUpdateStats (fst (counts jobs)) (fst (snd (counts jobs))) (snd (snd (counts jobs)))]
     @ (if had \<noteq> hasActiveJobs m then
          (if refreshInterval m \<noteq> None then [ClearInterval] else [])
          @ [SetInterval (if hasActiveJobs m then 1500 else 10000)]
        else [])
     @ (if \<exists>j \<in> set jobs. status j = Present ''completed'' then [LoadDatabaseStats] else [])"
  by (auto simp add: after_render_def Let_def emit_def updateJobStats_fields
      optimizeRefreshInterval_fields optimizeRefreshInterval_effects list_ex_iff)

lemma anyActive_filter:
  "(0 < length (filter (\<lambda>j. status j = Present ''running'' \<or> status j = Present ''queued'') jobs))
     = anyActive jobs"
  by (auto simp add: anyActive_def filter_empty_conv)

lemma on_jobs_same_hash:
  assumes "lastJobsHash m = Some (jobsHash jobs)"
  shows "on_jobs srt jobs m =
           (None, after_render (hasActiveJobs m) jobs (m\<lparr>hasActiveJobs := anyActive jobs\<rparr>))"
  using assms by (simp add: on_jobs_def Let_def anyActive_filter del: length_greater_0_conv)

lemma on_jobs_thrown:
  assumes "lastJobsHash m \<noteq> Some (jobsHash jobs)"
    and "fst (renderJobs srt jobs (m\<lparr>hasActiveJobs := anyActive jobs\<rparr>)) = Inl e"
  shows "on_jobs srt jobs m =
           (Some OtherException, emit (CallRenderJobs jobs) (m\<lparr>hasActiveJobs := anyActive jobs\<rparr>))"
  using assms renderJobs_thrown [OF assms(2)]
  by (simp add: on_jobs_def Let_def anyActive_filter split_beta del: length_greater_0_conv
      split: sum.splits)

lemma on_jobs_rendered:
  assumes "lastJobsHash m \<noteq> Some (jobsHash jobs)"
    and "fst (renderJobs srt jobs (m\<lparr>hasActiveJobs := anyActive jobs\<rparr>)) = Inr js"
  shows "on_jobs srt jobs m =
           (None, after_render (hasActiveJobs m) js
              ((snd (renderJobs srt jobs (m\<lparr>hasActiveJobs := anyActive jobs\<rparr>)))
                 \<lparr>lastJobsHash := Some (jobsHash jobs)\<rparr>))"
  using assms
  by (simp add: on_jobs_def Let_def anyActive_filter split_beta del: length_greater_0_conv
      split: sum.splits)

lemma on_jobs_cases:
  obtains (same) "lastJobsHash m = Some (jobsHash jobs)"
  | (thrown) e where "lastJobsHash m \<noteq> Some (jobsHash jobs)"
      "fst (renderJobs srt jobs (m\<lparr>hasActiveJobs := anyActive jobs\<rparr>)) = Inl e"
  | (rendered) js where "lastJobsHash m \<noteq> Some (jobsHash jobs)"
      "fst (renderJobs srt jobs (m\<lparr>hasActiveJobs := anyActive jobs\<rparr>)) = Inr js"
  by (cases "fst (renderJobs srt jobs (m\<lparr>hasActiveJobs := anyActive jobs\<rparr>))") auto

lemma on_jobs_fields:
  "hasActiveJobs (snd (on_jobs srt jobs m)) = anyActive jobs"
  "isRefreshing (snd (on_jobs srt jobs m)) = isRefreshing m"
  "aborted (snd (on_jobs srt jobs m)) = aborted m"
  "pending (snd (on_jobs srt jobs m)) = pending m"
  by (cases rule: on_jobs_cases [where m = m and jobs = jobs and srt = srt];
      simp add: on_jobs_same_hash on_jobs_thrown on_jobs_rendered after_render_fields
        renderJobs_fields emit_def)+

lemma on_jobs_thrown_iff:
  "fst (on_jobs srt jobs m) \<noteq> None \<longleftrightarrow>
     lastJobsHash m \<noteq> Some (jobsHash jobs) \<and> jobs \<noteq> []
     \<and> isl (all_or_error (map renderJob (srt compareJobs jobs)))"
proof (cases rule: on_jobs_cases [where m = m and jobs = jobs and srt = srt])
  case same
  then show ?thesis by (simp add: on_jobs_same_hash)
next
  case (thrown e)
  then show ?thesis
    using renderJobs_throws_iff [of srt jobs "m\<lparr>hasActiveJobs := anyActive jobs\<rparr>"]
    by (simp add: on_jobs_thrown)
next
  case (rendered js)
  then show ?thesis
    using renderJobs_throws_iff [of srt jobs "m\<lparr>hasActiveJobs := anyActive jobs\<rparr>"]
    by (simp add: on_jobs_rendered)
qed

lemma on_jobs_renderable:
  assumes "rearranges srt" "renderable jobs"
  shows "fst (on_jobs srt jobs m) = None"
  using on_jobs_thrown_iff [of srt jobs m] renderable_sorted [OF assms, of compareJobs]
  by auto

lemma on_jobs_done:
  assumes "fst (on_jobs srt jobs m) = None"
  shows "lastJobsHash (snd (on_jobs srt jobs m)) = Some (jobsHash jobs)
     \<and> refreshInterval (snd (on_jobs srt jobs m)) =
           (if hasActiveJobs m \<noteq> anyActive jobs then Some (if anyActive jobs then 1500 else 10000)
            else refreshInterval m)
     \<and> renderCalls (snd (on_jobs srt jobs m)) =
           renderCalls m + (if lastJobsHash m = Some (jobsHash jobs) then 0 else 1)
     \<and> timerArms (snd (on_jobs srt jobs m)) =
           timerArms m + (if hasActiveJobs m \<noteq> anyActive jobs then 1 else 0)
     \<and> notifications (snd (on_jobs srt jobs m)) = notifications m
     \<and> fetches (snd (on_jobs srt jobs m)) = fetches m
     \<and> (lastJobsHash m = Some (jobsHash jobs) \<longrightarrow>
           jobsListContent (snd (on_jobs srt jobs m)) = jobsListContent m)"
proof (cases rule: on_jobs_cases [where m = m and jobs = jobs and srt = srt])
  case same
  then show ?thesis
    by (simp add: on_jobs_same_hash after_render_fields after_render_refreshInterval
        after_render_effects renderCalls_def timerArms_def notifications_def fetches_def)
next
  case (thrown e)
  with assms show ?thesis by (simp add: on_jobs_thrown)
next
  case (rendered js)
  then show ?thesis
    by (simp add: on_jobs_rendered after_render_fields after_render_refreshInterval
        after_render_effects renderJobs_fields renderJobs_effects
        renderCalls_def timerArms_def notifications_def fetches_def)
qed

lemma on_jobs_done_stats:
  assumes "fst (on_jobs srt jobs m) = None"
    and "rearranges srt \<or> lastJobsHash m = Some (jobsHash jobs)"
  shows "statsShown (snd (on_jobs srt jobs m)) = Some (counts jobs)
     \<and> CallUpdateStats (fst (counts jobs)) (fst (snd (counts jobs))) (snd (snd (counts jobs)))
           \<in> set (drop (length (effects m)) (effects (snd (on_jobs srt jobs m))))"
proof (cases rule: on_jobs_cases [where m = m and jobs = jobs and srt = srt])
  case same
  then show ?thesis
    by (simp add: on_jobs_same_hash after_render_fields after_render_effects)
next
  case (thrown e)
  with assms show ?thesis by (simp add: on_jobs_thrown)
next
  case (rendered js)
  with assms(2) have r: "rearranges srt" by simp
  have c: "counts js = counts jobs"
    using renderJobs_done_mset [OF r rendered(2)] by (rule counts_mset)
  from rendered c show ?thesis
    by (simp add: on_jobs_rendered after_render_fields after_render_effects renderJobs_effects)
qed

lemma on_jobs_failed:
  assumes "fst (on_jobs srt jobs m) \<noteq> None"
  shows "on_jobs srt jobs m =
           (Some OtherException, emit (CallRenderJobs jobs) (m\<lparr>hasActiveJobs := anyActive jobs\<rparr>))"
proof (cases rule: on_jobs_cases [where m = m and jobs = jobs and srt = srt])
  case same
  with assms show ?thesis by (simp add: on_jobs_same_hash)
next
  case (thrown e)
  then show ?thesis by (rule on_jobs_thrown)
next
  case (rendered js)
  with assms show ?thesis by (simp add: on_jobs_rendered)
qed

subsection \<open>The pieces of loadJobs and what they keep\<close>

lemma on_not_found_fields:
  "isRefreshing (on_not_found m) = isRefreshing m"
  "aborted (on_not_found m) = aborted m"
  "pending (on_not_found m) = pending m"
  "lastJobsHash (on_not_found m) = Some ''empty''"
  by (simp_all add: on_not_found_def Let_def optimizeRefreshInterval_fields
      renderEmptyState_def updateStats_def emit_def)

lemma on_not_found_changed:
  assumes "lastJobsHash m \<noteq> Some ''empty''"
  shows "hasActiveJobs (on_not_found m) = False"
    and "statsShown (on_not_found m) = Some (0, 0, 0)"
    and "jobsListContent (on_not_found m) = Some EmptyState"
    and "refreshInterval (on_not_found m) = Some 10000"
    and "effects (on_not_found m) =
           effects m @ [CallRenderEmptyState, CallUpdateStats 0 0 0]
             @ (if refreshInterval m \<noteq> None then [ClearInterval] else [])
             @ [SetInterval 10000]"
  using assms
  by (simp_all add: on_not_found_def Let_def optimizeRefreshInterval_fields
      optimizeRefreshInterval_effects renderEmptyState_def updateStats_def emit_def)

lemma on_not_found_same: "lastJobsHash m = Some ''empty'' \<Longrightarrow> on_not_found m = m"
  by (simp add: on_not_found_def)

lemma on_error_fields:
  "isRefreshing (on_error m) = isRefreshing m"
  "aborted (on_error m) = aborted m"
  "pending (on_error m) = pending m"
  "lastJobsHash (on_error m) = lastJobsHash m"
  "hasActiveJobs (on_error m) = hasActiveJobs m"
  "statsShown (on_error m) = statsShown m"
  "jobsListContent (on_error m) = jobsListContent m"
  "refreshInterval (on_error m) = refreshInterval m"
  "effects (on_error m) =
     effects m @ [ShowNotification ''Errore nel caricamento dei job'' ''destructive'']"
  by (simp_all add: on_error_def showNotification_def emit_def)

lemma loadJobs_try_abort: "loadJobs_try srt AbortError m = m"
  by (simp add: loadJobs_try_def loadJobs_body_def loadJobs_catch_def)

lemma loadJobs_try_failure: "refresh_fails r \<Longrightarrow> loadJobs_try srt r m = on_error m"
  by (cases r)
     (auto simp: loadJobs_try_def loadJobs_body_def loadJobs_catch_def split: body.splits)

lemma loadJobs_try_not_found: "loadJobs_try srt (Response 404 b) m = on_not_found m"
  by (simp add: loadJobs_try_def loadJobs_body_def response_ok_def)

lemma loadJobs_try_jobs:
  assumes "response_ok st"
  shows "loadJobs_try srt (Response st (BodyJobs jobs)) m =
           (if fst (on_jobs srt jobs m) = None then snd (on_jobs srt jobs m)
            else on_error (snd (on_jobs srt jobs m)))"
proof (cases "fst (on_jobs srt jobs m) = None")
  case True
  then show ?thesis
    using assms by (simp add: loadJobs_try_def loadJobs_body_def split_beta)
next
  case False
  then show ?thesis
    using assms on_jobs_failed [OF False]
    by (simp add: loadJobs_try_def loadJobs_body_def loadJobs_catch_def)
qed

lemma loadJobs_try_cases:
  obtains (abort) "r = AbortError"
  | (failure) "refresh_fails r"
  | (not_found) b where "r = Response 404 b"
  | (jobs) st jobs where "r = Response st (BodyJobs jobs)" "response_ok st"
proof (cases r)
  case (Response st b)
  then show ?thesis
    using failure not_found jobs by (cases b; cases "response_ok st"; cases "st = 404") auto
qed (use abort failure in auto)

lemma loadJobs_try_fields:
  "isRefreshing (loadJobs_try srt r m) = isRefreshing m"
  "aborted (loadJobs_try srt r m) = aborted m"
  "pending (loadJobs_try srt r m) = pending m"
  by (cases rule: loadJobs_try_cases [where r = r];
      simp add: loadJobs_try_abort loadJobs_try_failure loadJobs_try_not_found loadJobs_try_jobs
        on_not_found_fields on_error_fields on_jobs_fields)+

lemma loadJobs_resume_fields:
  "isRefreshing (loadJobs_resume srt r m) = False"
  "aborted (loadJobs_resume srt r m) = aborted m"
  "pending (loadJobs_resume srt r m) = pending m - 1"
  by (simp_all add: loadJobs_resume_def loadJobs_finally_def loadJobs_try_fields)

lemma loadJobs_resume_aborted:
  "aborted m \<Longrightarrow> loadJobs_resume srt r m = m\<lparr>isRefreshing := False, pending := pending m - 1\<rparr>"
  by (simp add: loadJobs_resume_def loadJobs_finally_def loadJobs_try_abort)

lemma loadJobs_finally_other:
  "lastJobsHash (loadJobs_finally m) = lastJobsHash m"
  "hasActiveJobs (loadJobs_finally m) = hasActiveJobs m"
  "statsShown (loadJobs_finally m) = statsShown m"
  "jobsListContent (loadJobs_finally m) = jobsListContent m"
  "refreshInterval (loadJobs_finally m) = refreshInterval m"
  "effects (loadJobs_finally m) = effects m"
  "aborted (loadJobs_finally m) = aborted m"
  by (simp_all add: loadJobs_finally_def)

lemma loadJobs_begin_fields:
  "lastJobsHash (loadJobs_begin m) = lastJobsHash m"
  "hasActiveJobs (loadJobs_begin m) = hasActiveJobs m"
  "statsShown (loadJobs_begin m) = statsShown m"
  "jobsListContent (loadJobs_begin m) = jobsListContent m"
  "refreshInterval (loadJobs_begin m) = refreshInterval m"
  "aborted (loadJobs_begin m) = aborted m"
  "isRefreshing (loadJobs_begin m) = True"
  "pending (loadJobs_begin m) = (if isRefreshing m then pending m else pending m + 1)"
  "effects (loadJobs_begin m) = (if isRefreshing m then effects m else effects m @ [Fetch])"
  by (simp_all add: loadJobs_begin_def emit_def)

lemma cleanup_fields:
  "lastJobsHash (cleanup m) = None"
  "hasActiveJobs (cleanup m) = hasActiveJobs m"
  "statsShown (cleanup m) = statsShown m"
  "jobsListContent (cleanup m) = jobsListContent m"
  "refreshInterval (cleanup m) = None"
  "aborted (cleanup m) = True"
  "isRefreshing (cleanup m) = False"
  "pending (cleanup m) = pending m"
  "effects (cleanup m) =
     effects m @ (if refreshInterval m \<noteq> None then [ClearInterval] else []) @ [Abort]"
  by (simp_all add: cleanup_def stopPeriodicRefresh_def Let_def emit_def)

lemma jobsHash_not_empty: "jobsHash jobs \<noteq> ''empty''"
  by (simp add: jobsHash_def)

lemma guarded_finally:
  assumes "guarded m" "aborted m \<or> isRefreshing m"
  shows "guarded (loadJobs_finally m)"
  using assms by (auto simp add: guarded_def loadJobs_finally_def)

lemma guarded_try: "guarded m \<Longrightarrow> guarded (loadJobs_try srt r m)"
  by (simp add: guarded_def loadJobs_try_fields)

lemma guarded_resume:
  assumes "guarded m" "0 < pending m"
  shows "guarded (loadJobs_resume srt r m)"
proof -
  have "aborted m \<or> isRefreshing m"
    using assms by (auto simp: guarded_def split: if_splits)
  then have "aborted (loadJobs_try srt (if aborted m then AbortError else r) m)
      \<or> isRefreshing (loadJobs_try srt (if aborted m then AbortError else r) m)"
    by (simp add: loadJobs_try_fields)
  with assms(1) show ?thesis
    unfolding loadJobs_resume_def
    by (intro guarded_finally guarded_try)
qed

lemma guarded_begin: "guarded m \<Longrightarrow> guarded (loadJobs_begin m)"
  by (auto simp add: guarded_def loadJobs_begin_fields)

lemma guarded_cleanup: "guarded (cleanup m)"
  by (simp add: guarded_def cleanup_fields)

lemma guarded_step: "guarded m \<Longrightarrow> guarded (step srt m ev)"
  by (cases ev) (simp_all add: step_def guarded_begin guarded_resume guarded_cleanup)

lemma guarded_run: "guarded m \<Longrightarrow> guarded (run srt m evs)"
  unfolding run_def by (induction evs arbitrary: m) (simp_all add: guarded_step)

lemma guarded_new: "guarded new_ImportManager"
  by (simp add: new_ImportManager_def startPeriodicRefresh_def initial_fields_def
      guarded_def loadJobs_begin_fields optimizeRefreshInterval_fields)

lemma consistent_guarded: "consistent m \<Longrightarrow> guarded m"
  by (simp add: consistent_def guarded_def)

lemma consistent_on_jobs:
  assumes "consistent m" "fst (on_jobs srt jobs m) = None"
  shows "consistent (snd (on_jobs srt jobs m))"
  using assms(1) on_jobs_done [OF assms(2)]
  by (auto simp add: consistent_def on_jobs_fields jobsHash_not_empty)

lemma consistent_on_not_found:
  assumes "consistent m"
  shows "consistent (on_not_found m)"
proof (cases "lastJobsHash m = Some ''empty''")
  case True
  then show ?thesis using assms by (simp add: on_not_found_same)
next
  case False
  then show ?thesis using assms
    by (simp add: consistent_def on_not_found_fields on_not_found_changed)
qed

lemma consistent_on_error: "consistent m \<Longrightarrow> consistent (on_error m)"
  by (simp add: consistent_def on_error_fields)

lemma consistent_loadJobs_try:
  assumes "consistent m" "\<not> render_fails srt r m"
  shows "consistent (loadJobs_try srt r m)"
proof (cases rule: loadJobs_try_cases [where r = r])
  case abort
  then show ?thesis using assms by (simp add: loadJobs_try_abort)
next
  case failure
  then show ?thesis using assms by (simp add: loadJobs_try_failure consistent_on_error)
next
  case (not_found b)
  then show ?thesis using assms by (simp add: loadJobs_try_not_found consistent_on_not_found)
next
  case (jobs st jobs)
  then show ?thesis using assms by (simp add: loadJobs_try_jobs consistent_on_jobs)
qed

lemma consistent_finally:
  assumes "consistent m" "aborted m \<or> isRefreshing m"
  shows "consistent (loadJobs_finally m)"
  using assms by (auto simp add: consistent_def loadJobs_finally_def)

lemma render_fails_abort [simp]: "\<not> render_fails srt AbortError m"
  by simp

lemma consistent_resume:
  assumes "consistent m" "0 < pending m" "\<not> render_fails srt r m"
  shows "consistent (loadJobs_resume srt r m)"
proof -
  let ?r = "if aborted m then AbortError else r"
  have "aborted m \<or> isRefreshing m"
    using assms by (auto simp: consistent_def split: if_splits)
  then have a: "aborted (loadJobs_try srt ?r m) \<or> isRefreshing (loadJobs_try srt ?r m)"
    by (simp add: loadJobs_try_fields)
  have "\<not> render_fails srt ?r m" using assms(3) by simp
  then have "consistent (loadJobs_try srt ?r m)"
    using assms(1) by (rule consistent_loadJobs_try [rotated])
  with a show ?thesis
    unfolding loadJobs_resume_def by (intro consistent_finally)
qed

lemma consistent_begin: "consistent m \<Longrightarrow> consistent (loadJobs_begin m)"
  by (auto simp add: consistent_def loadJobs_begin_fields)

lemma consistent_cleanup: "consistent m \<Longrightarrow> consistent (cleanup m)"
  by (simp add: consistent_def cleanup_fields)

lemma renderable_not_render_fails:
  assumes "rearranges srt" "renderable_event (FetchSettles r)"
  shows "\<not> render_fails srt r m"
  using assms by (cases "(srt, r, m)" rule: render_fails.cases) (simp_all add: on_jobs_renderable)

lemma consistent_step:
  assumes "consistent m" "rearranges srt" "renderable_event ev"
  shows "consistent (step srt m ev)"
  using assms
  by (cases ev)
     (simp_all add: step_def consistent_begin consistent_resume consistent_cleanup
        renderable_not_render_fails del: renderable_event.simps)

lemma consistent_run:
  assumes "consistent m" "rearranges srt" "\<forall>ev \<in> set evs. renderable_event ev"
  shows "consistent (run srt m evs)"
  using assms unfolding run_def
  by (induction evs arbitrary: m) (simp_all add: consistent_step)

lemma consistent_new: "consistent new_ImportManager"
  by (simp add: new_ImportManager_def startPeriodicRefresh_def initial_fields_def
      consistent_def loadJobs_begin_fields optimizeRefreshInterval_fields)

subsection \<open>Complete calls of loadJobs\<close>

lemma on_jobs_fst:
  "fst (on_jobs srt jobs m) =
     (if lastJobsHash m \<noteq> Some (jobsHash jobs) \<and> jobs \<noteq> []
         \<and> isl (all_or_error (map renderJob (srt compareJobs jobs)))
      then Some OtherException else None)"
proof (cases "fst (on_jobs srt jobs m) = None")
  case True
  then show ?thesis using on_jobs_thrown_iff [of srt jobs m] by auto
next
  case False
  then show ?thesis
    using on_jobs_thrown_iff [of srt jobs m] on_jobs_failed [OF False] by auto
qed

lemma render_fails_iff:
  "render_fails srt r m \<longleftrightarrow>
     (\<exists>st jobs. r = Response st (BodyJobs jobs) \<and> response_ok st
        \<and> lastJobsHash m \<noteq> Some (jobsHash jobs) \<and> jobs \<noteq> []
        \<and> isl (all_or_error (map renderJob (srt compareJobs jobs))))"
  by (cases "(srt, r, m)" rule: render_fails.cases) (simp_all add: on_jobs_fst)

lemma render_fails_begin: "render_fails srt r (loadJobs_begin m) = render_fails srt r m"
  by (simp add: render_fails_iff loadJobs_begin_fields)

lemma loadJobs_idle:
  assumes "\<not> isRefreshing m" "\<not> aborted m"
  shows "loadJobs srt r m = loadJobs_finally (loadJobs_try srt r (loadJobs_begin m))"
  using assms by (simp add: loadJobs_def loadJobs_resume_def loadJobs_begin_fields)

lemma loadJobs_idle_after:
  assumes "\<not> isRefreshing m"
  shows "\<not> isRefreshing (loadJobs srt r m)" and "aborted (loadJobs srt r m) = aborted m"
    and "pending (loadJobs srt r m) = pending m"
  using assms by (simp_all add: loadJobs_def loadJobs_resume_fields loadJobs_begin_fields)

lemma loadJobs_jobs:
  assumes "\<not> isRefreshing m" "\<not> aborted m" "response_ok st"
    and "\<not> render_fails srt (Response st (BodyJobs jobs)) m"
  shows "lastJobsHash (loadJobs srt (Response st (BodyJobs jobs)) m) = Some (jobsHash jobs)
     \<and> hasActiveJobs (loadJobs srt (Response st (BodyJobs jobs)) m) = anyActive jobs
     \<and> refreshInterval (loadJobs srt (Response st (BodyJobs jobs)) m) =
           (if hasActiveJobs m \<noteq> anyActive jobs then Some (if anyActive jobs then 1500 else 10000)
            else refreshInterval m)
     \<and> renderCalls (loadJobs srt (Response st (BodyJobs jobs)) m) =
           renderCalls m + (if lastJobsHash m = Some (jobsHash jobs) then 0 else 1)
     \<and> timerArms (loadJobs srt (Response st (BodyJobs jobs)) m) =
           timerArms m + (if hasActiveJobs m \<noteq> anyActive jobs then 1 else 0)
     \<and> notifications (loadJobs srt (Response st (BodyJobs jobs)) m) = notifications m
     \<and> (lastJobsHash m = Some (jobsHash jobs) \<longrightarrow>
           jobsListContent (loadJobs srt (Response st (BodyJobs jobs)) m) = jobsListContent m)"
proof -
  let ?b = "loadJobs_begin m"
  have n: "fst (on_jobs srt jobs ?b) = None"
    using assms(3,4) render_fails_begin [of srt "Response st (BodyJobs jobs)" m] by simp
  have e: "renderCalls ?b = renderCalls m" "timerArms ?b = timerArms m"
    "notifications ?b = notifications m"
    using assms(1) by (simp_all add: renderCalls_def timerArms_def notifications_def
        loadJobs_begin_fields)
  have f: "renderCalls (loadJobs_finally x) = renderCalls x"
    "timerArms (loadJobs_finally x) = timerArms x"
    "notifications (loadJobs_finally x) = notifications x" for x
    by (simp_all add: renderCalls_def timerArms_def notifications_def loadJobs_finally_other)
  show ?thesis
    using on_jobs_done [OF n] assms(1-3) n e
    by (simp add: loadJobs_idle loadJobs_try_jobs loadJobs_finally_other f on_jobs_fields
        loadJobs_begin_fields)
qed

lemma loadJobs_jobs_stats:
  assumes "\<not> isRefreshing m" "\<not> aborted m" "response_ok st"
    and "\<not> render_fails srt (Response st (BodyJobs jobs)) m"
    and "rearranges srt \<or> lastJobsHash m = Some (jobsHash jobs)"
  shows "statsShown (loadJobs srt (Response st (BodyJobs jobs)) m) = Some (counts jobs)
     \<and> CallUpdateStats (fst (counts jobs)) (fst (snd (counts jobs))) (snd (snd (counts jobs)))
           \<in> set (drop (length (effects m)) (effects (loadJobs srt (Response st (BodyJobs jobs)) m)))"
proof -
  let ?b = "loadJobs_begin m"
  have n: "fst (on_jobs srt jobs ?b) = None"
    using assms(3,4) render_fails_begin [of srt "Response st (BodyJobs jobs)" m] by simp
  have h: "rearranges srt \<or> lastJobsHash ?b = Some (jobsHash jobs)"
    using assms(5) by (simp add: loadJobs_begin_fields)
  have l: "length (effects ?b) = Suc (length (effects m))"
    using assms(1) by (simp add: loadJobs_begin_fields)
  have "x \<in> set (drop (Suc n) xs) \<Longrightarrow> x \<in> set (drop n xs)" for x :: effect and n xs
    using set_drop_subset_set_drop [of n "Suc n" xs] by auto
  then show ?thesis
    using on_jobs_done_stats [OF n h] assms(1-3) n l
    by (simp add: loadJobs_idle loadJobs_try_jobs loadJobs_finally_other)
qed

lemma loadJobs_render_fails:
  assumes "\<not> isRefreshing m" "\<not> aborted m"
    and "render_fails srt (Response st (BodyJobs jobs)) m"
  shows "effects (loadJobs srt (Response st (BodyJobs jobs)) m) =
           effects m @ [Fetch, CallRenderJobs jobs,
             ShowNotification ''Errore nel caricamento dei job'' ''destructive'']
     \<and> hasActiveJobs (loadJobs srt (Response st (BodyJobs jobs)) m) = anyActive jobs
     \<and> lastJobsHash (loadJobs srt (Response st (BodyJobs jobs)) m) = lastJobsHash m
     \<and> statsShown (loadJobs srt (Response st (BodyJobs jobs)) m) = statsShown m
     \<and> jobsListContent (loadJobs srt (Response st (BodyJobs jobs)) m) = jobsListContent m
     \<and> refreshInterval (loadJobs srt (Response st (BodyJobs jobs)) m) = refreshInterval m"
proof -
  let ?b = "loadJobs_begin m"
  from assms(3) have ok: "response_ok st" by simp
  have n: "fst (on_jobs srt jobs ?b) \<noteq> None"
    using assms(3) render_fails_begin [of srt "Response st (BodyJobs jobs)" m] by simp
  show ?thesis
    using on_jobs_failed [OF n] assms(1,2) ok n
    by (simp add: loadJobs_idle loadJobs_try_jobs loadJobs_finally_other on_error_fields
        loadJobs_begin_fields emit_def)
qed

lemma loadJobs_not_found:
  assumes "\<not> isRefreshing m" "\<not> aborted m"
  shows "loadJobs srt (Response 404 b) m = loadJobs_finally (on_not_found (loadJobs_begin m))"
  using assms by (simp add: loadJobs_idle loadJobs_try_not_found)

lemma loadJobs_not_found_fields:
  assumes "\<not> isRefreshing m" "\<not> aborted m"
  shows "lastJobsHash (loadJobs srt (Response 404 b) m) = Some ''empty''"
    and "effects (loadJobs srt (Response 404 b) m) =
           effects m @ [Fetch]
           @ (if lastJobsHash m = Some ''empty'' then []
              else [CallRenderEmptyState, CallUpdateStats 0 0 0]
                @ (if refreshInterval m \<noteq> None then [ClearInterval] else [])
                @ [SetInterval 10000])"
    and "lastJobsHash m \<noteq> Some ''empty'' \<Longrightarrow>
           hasActiveJobs (loadJobs srt (Response 404 b) m) = False
         \<and> statsShown (loadJobs srt (Response 404 b) m) = Some (0, 0, 0)
         \<and> jobsListContent (loadJobs srt (Response 404 b) m) = Some EmptyState
         \<and> refreshInterval (loadJobs srt (Response 404 b) m) = Some 10000"
    and "lastJobsHash m = Some ''empty'' \<Longrightarrow>
           hasActiveJobs (loadJobs srt (Response 404 b) m) = hasActiveJobs m
         \<and> statsShown (loadJobs srt (Response 404 b) m) = statsShown m
         \<and> jobsListContent (loadJobs srt (Response 404 b) m) = jobsListContent m
         \<and> refreshInterval (loadJobs srt (Response 404 b) m) = refreshInterval m"
proof -
  have b: "lastJobsHash (loadJobs_begin m) = lastJobsHash m" by (simp add: loadJobs_begin_fields)
  show "lastJobsHash (loadJobs srt (Response 404 b) m) = Some ''empty''"
    using assms by (simp add: loadJobs_not_found loadJobs_finally_other on_not_found_fields)
  show "effects (loadJobs srt (Response 404 b) m) =
           effects m @ [Fetch]
           @ (if lastJobsHash m = Some ''empty'' then []
              else [CallRenderEmptyState, CallUpdateStats 0 0 0]
                @ (if refreshInterval m \<noteq> None then [ClearInterval] else [])
                @ [SetInterval 10000])"
    using assms b
    by (cases "lastJobsHash m = Some ''empty''")
       (simp_all add: loadJobs_not_found loadJobs_finally_other on_not_found_same
          on_not_found_changed loadJobs_begin_fields)
  show "lastJobsHash m \<noteq> Some ''empty'' \<Longrightarrow>
           hasActiveJobs (loadJobs srt (Response 404 b) m) = False
         \<and> statsShown (loadJobs srt (Response 404 b) m) = Some (0, 0, 0)
         \<and> jobsListContent (loadJobs srt (Response 404 b) m) = Some EmptyState
         \<and> refreshInterval (loadJobs srt (Response 404 b) m) = Some 10000"
    using assms b
    by (simp add: loadJobs_not_found loadJobs_finally_other on_not_found_changed)
  show "lastJobsHash m = Some ''empty'' \<Longrightarrow>
           hasActiveJobs (loadJobs srt (Response 404 b) m) = hasActiveJobs m
         \<and> statsShown (loadJobs srt (Response 404 b) m) = statsShown m
         \<and> jobsListContent (loadJobs srt (Response 404 b) m) = jobsListContent m
         \<and> refreshInterval (loadJobs srt (Response 404 b) m) = refreshInterval m"
    using assms b
    by (simp add: loadJobs_not_found loadJobs_finally_other on_not_found_same loadJobs_begin_fields)
qed

lemma timerArms_not_found:
  assumes "\<not> isRefreshing m" "\<not> aborted m"
  shows "timerArms (loadJobs srt (Response 404 b) m) =
           timerArms m + (if lastJobsHash m = Some ''empty'' then 0 else 1)"
  using assms by (simp add: timerArms_def loadJobs_not_found_fields)

lemma consistent_loadJobs:
  assumes "consistent m" "\<not> render_fails srt r m"
  shows "consistent (loadJobs srt r m)"
  using assms
  by (simp add: loadJobs_def consistent_begin consistent_resume loadJobs_begin_fields
      render_fails_begin)

lemma polls_idle:
  assumes "\<not> isRefreshing m" "\<not> aborted m"
  shows "\<not> isRefreshing (polls srt m jss) \<and> \<not> aborted (polls srt m jss)"
  using assms unfolding polls_def
  by (induction jss arbitrary: m) (simp_all add: loadJobs_idle_after)

lemma poll_same_hash:
  assumes "\<not> isRefreshing m" "\<not> aborted m" "lastJobsHash m = Some (jobsHash jobs)"
  shows "renderCalls (loadJobs srt (Response 200 (BodyJobs jobs)) m) = renderCalls m
     \<and> lastJobsHash (loadJobs srt (Response 200 (BodyJobs jobs)) m) = Some (jobsHash jobs)
     \<and> notifications (loadJobs srt (Response 200 (BodyJobs jobs)) m) = notifications m"
proof -
  have ok: "response_ok 200" by (simp add: response_ok_def)
  have "\<not> render_fails srt (Response 200 (BodyJobs jobs)) m"
    using assms(3) by (simp add: render_fails_iff)
  from loadJobs_jobs [OF assms(1,2) ok this] assms(3) show ?thesis by simp
qed

lemma polls_same_hash:
  assumes "\<not> isRefreshing m" "\<not> aborted m" "lastJobsHash m = Some h"
    and "\<forall>jobs \<in> set jss. jobsHash jobs = h"
  shows "renderCalls (polls srt m jss) = renderCalls m \<and> lastJobsHash (polls srt m jss) = Some h
     \<and> notifications (polls srt m jss) = notifications m"
  using assms
proof (induction jss arbitrary: m)
  case Nil
  then show ?case by (simp add: polls_def)
next
  case (Cons jobs jss)
  let ?m1 = "loadJobs srt (Response 200 (BodyJobs jobs)) m"
  have idle: "\<not> isRefreshing ?m1" "\<not> aborted ?m1"
    using Cons.prems by (simp_all add: loadJobs_idle_after)
  have h: "jobsHash jobs = h" using Cons.prems by simp
  have 1: "renderCalls ?m1 = renderCalls m \<and> lastJobsHash ?m1 = Some h
      \<and> notifications ?m1 = notifications m"
    using poll_same_hash [OF Cons.prems(1,2), of jobs srt] Cons.prems(3) h by simp
  have "renderCalls (polls srt ?m1 jss) = renderCalls ?m1 \<and> lastJobsHash (polls srt ?m1 jss) = Some h
      \<and> notifications (polls srt ?m1 jss) = notifications ?m1"
    using Cons.prems 1 by (intro Cons.IH idle) simp_all
  then show ?case using 1 by (simp add: polls_def)
qed

subsection \<open>Requests, cleanup, notifications and the projection\<close>

lemma inFlight_le_one: "guarded m \<Longrightarrow> inFlight m \<le> 1"
  by (simp add: guarded_def inFlight_def)

lemma fetches_on_not_found: "fetches (on_not_found m) = fetches m"
  by (cases "lastJobsHash m = Some ''empty''")
     (simp_all add: fetches_def on_not_found_same on_not_found_changed)

lemma fetches_on_error: "fetches (on_error m) = fetches m"
  by (simp add: fetches_def on_error_fields)

lemma fetches_on_jobs: "fetches (snd (on_jobs srt jobs m)) = fetches m"
proof (cases "fst (on_jobs srt jobs m) = None")
  case True
  then show ?thesis using on_jobs_done [OF True] by simp
next
  case False
  then show ?thesis using on_jobs_failed [OF False] by (simp add: fetches_def emit_def)
qed

lemma fetches_try: "fetches (loadJobs_try srt r m) = fetches m"
  by (cases rule: loadJobs_try_cases [where r = r])
     (simp_all add: loadJobs_try_abort loadJobs_try_failure loadJobs_try_not_found
        loadJobs_try_jobs fetches_on_error fetches_on_not_found fetches_on_jobs)

lemma fetches_finally: "fetches (loadJobs_finally m) = fetches m"
  by (simp add: fetches_def loadJobs_finally_other)

lemma fetches_resume: "fetches (loadJobs_resume srt r m) = fetches m"
  by (simp add: loadJobs_resume_def fetches_finally fetches_try)

lemma fetches_cleanup: "fetches (cleanup m) = fetches m"
  by (simp add: fetches_def cleanup_fields)

lemma fetches_begin:
  "fetches (loadJobs_begin m) = (if isRefreshing m then fetches m else fetches m + 1)"
  by (simp add: fetches_def loadJobs_begin_fields)

lemma busy_step_no_fetch:
  assumes "guarded m" "inFlight m = 1"
  shows "fetches (step srt m ev) = fetches m"
proof -
  from assms have "isRefreshing m"
    by (auto simp: guarded_def inFlight_def split: if_splits)
  then show ?thesis
    by (cases ev) (simp_all add: step_def fetches_begin fetches_resume fetches_cleanup)
qed

lemma disposed_cleanup: "disposed (cleanup m)"
  by (simp add: disposed_def cleanup_fields)

lemma disposed_step:
  assumes "disposed m"
  shows "disposed (step srt m ev)"
    and "observed (step srt m ev) = observed m"
    and "jobsListContent (step srt m ev) = jobsListContent m"
    and "statsShown (step srt m ev) = statsShown m"
    and "hasActiveJobs (step srt m ev) = hasActiveJobs m"
  using assms
  by (cases ev; simp add: step_def disposed_def observed_def loadJobs_begin_fields
        loadJobs_resume_aborted cleanup_fields)+

lemma disposed_run:
  assumes "disposed m"
  shows "disposed (run srt m evs) \<and> observed (run srt m evs) = observed m
     \<and> jobsListContent (run srt m evs) = jobsListContent m
     \<and> statsShown (run srt m evs) = statsShown m"
  using assms unfolding run_def
proof (induction evs arbitrary: m)
  case Nil
  then show ?case by simp
next
  case (Cons ev evs)
  from Cons.IH [OF disposed_step(1) [OF Cons.prems, of srt ev]]
    disposed_step(2-4) [OF Cons.prems, of srt ev]
  show ?case by simp
qed

lemma observed_cleanup:
  "observed (cleanup m) = observed m @ (if refreshInterval m \<noteq> None then [ClearInterval] else [])"
  by (simp add: observed_def cleanup_fields)

lemma count_observed:
  "renderCalls m = length (filter (\<lambda>e. case e of CallRenderJobs js \<Rightarrow> True | _ \<Rightarrow> False) (observed m))"
  "emptyRenders m = length (filter (\<lambda>e. e = CallRenderEmptyState) (observed m))"
  "notifications m = length (filter (\<lambda>e. case e of ShowNotification a b \<Rightarrow> True | _ \<Rightarrow> False) (observed m))"
  "timerArms m = length (filter (\<lambda>e. case e of SetInterval n \<Rightarrow> True | _ \<Rightarrow> False) (observed m))"
  unfolding renderCalls_def emptyRenders_def notifications_def timerArms_def observed_def
  by (induction "effects m"; auto intro!: arg_cong [where f = length] filter_cong split: effect.splits)+

lemma notifications_on_not_found: "notifications (on_not_found m) = notifications m"
  by (cases "lastJobsHash m = Some ''empty''")
     (simp_all add: notifications_def on_not_found_same on_not_found_changed)

lemma notifications_on_error: "notifications (on_error m) = notifications m + 1"
  by (simp add: notifications_def on_error_fields)

lemma notifications_on_jobs: "notifications (snd (on_jobs srt jobs m)) = notifications m"
proof (cases "fst (on_jobs srt jobs m) = None")
  case True
  then show ?thesis using on_jobs_done [OF True] by simp
next
  case False
  then show ?thesis using on_jobs_failed [OF False] by (simp add: notifications_def emit_def)
qed

lemma refresh_fails_not_render_fails: "refresh_fails r \<Longrightarrow> \<not> render_fails srt r m"
  by (cases "(srt, r, m)" rule: render_fails.cases) auto

lemma notifications_try:
  "notifications (loadJobs_try srt r m) =
     notifications m + (if refresh_fails r \<or> render_fails srt r m then 1 else 0)"
proof (cases rule: loadJobs_try_cases [where r = r])
  case abort
  then show ?thesis by (simp add: loadJobs_try_abort)
next
  case failure
  then show ?thesis by (simp add: loadJobs_try_failure notifications_on_error)
next
  case (not_found b)
  then show ?thesis
    by (simp add: loadJobs_try_not_found notifications_on_not_found response_ok_def
        render_fails_iff)
next
  case (jobs st jobs)
  then show ?thesis
    by (simp add: loadJobs_try_jobs notifications_on_error notifications_on_jobs)
qed

lemma notifications_finally: "notifications (loadJobs_finally m) = notifications m"
  by (simp add: notifications_def loadJobs_finally_other)

lemma loadJobs_try_render_fails:
  assumes "render_fails srt r m"
  shows "renderCalls (loadJobs_try srt r m) = renderCalls m + 1
     \<and> lastJobsHash (loadJobs_try srt r m) = lastJobsHash m
     \<and> statsShown (loadJobs_try srt r m) = statsShown m
     \<and> jobsListContent (loadJobs_try srt r m) = jobsListContent m
     \<and> refreshInterval (loadJobs_try srt r m) = refreshInterval m"
proof -
  from assms obtain st jobs where r: "r = Response st (BodyJobs jobs)" and ok: "response_ok st"
    and n: "fst (on_jobs srt jobs m) \<noteq> None"
    by (cases "(srt, r, m)" rule: render_fails.cases) auto
  show ?thesis
    using on_jobs_failed [OF n] n ok
    by (simp add: r loadJobs_try_jobs on_error_fields emit_def renderCalls_def)
qed

lemma entry_eq:
  assumes "(case x of None \<Rightarrow> [] | Some v \<Rightarrow> [(k, v)]) @ r
         = (case y of None \<Rightarrow> [] | Some v \<Rightarrow> [(k, v)]) @ r'"
    and "k \<notin> fst ` set r" and "k \<notin> fst ` set r'"
  shows "x = y \<and> r = r'"
  using assms by (cases x; cases y) (auto simp: image_iff)

lemma entry_keys:
  "fst ` set (case x of None \<Rightarrow> [] | Some v \<Rightarrow> [(k, v)]) \<subseteq> {k}"
  by (cases x) simp_all

lemma property_eq_iff:
  assumes "inj f" "\<And>v. f v \<noteq> JNull"
  shows "property f x = property f y \<longleftrightarrow> x = y"
proof -
  have "JNull \<noteq> f v" for v using assms(2) [of v] by auto
  then show ?thesis
    using assms by (cases x; cases y) (auto simp: property_def dest: injD)
qed

lemma projection_entries:
  "projection j =
     JObj ((case property JStr (job_id j) of None \<Rightarrow> [] | Some v \<Rightarrow> [(''id'', v)])
       @ (case property JStr (status j) of None \<Rightarrow> [] | Some v \<Rightarrow> [(''status'', v)])
       @ (case property JNum (progress_percent j) of None \<Rightarrow> []
            | Some v \<Rightarrow> [(''progress'', v)])
       @ (case property JStr (progress_stage j) of None \<Rightarrow> [] | Some v \<Rightarrow> [(''stage'', v)])
       @ [])"
  by (simp add: projection_def cong: option.case_cong)

lemma projection_eq_iff: "projection a = projection b \<longleftrightarrow> same_projection a b"
proof
  assume "same_projection a b"
  then show "projection a = projection b"
    by (simp add: projection_def same_projection_def)
next
  assume eq: "projection a = projection b"
  have k1: "''id'' \<notin> fst ` set
      ((case property JStr (status j) of None \<Rightarrow> [] | Some v \<Rightarrow> [(''status'', v)])
       @ (case property JNum (progress_percent j) of None \<Rightarrow> []
            | Some v \<Rightarrow> [(''progress'', v)])
       @ (case property JStr (progress_stage j) of None \<Rightarrow> [] | Some v \<Rightarrow> [(''stage'', v)])
       @ [])" for j
    by (auto split: option.splits)
  have k2: "''status'' \<notin> fst ` set
      ((case property JNum (progress_percent j) of None \<Rightarrow> []
            | Some v \<Rightarrow> [(''progress'', v)])
       @ (case property JStr (progress_stage j) of None \<Rightarrow> [] | Some v \<Rightarrow> [(''stage'', v)])
       @ [])" for j
    by (auto split: option.splits)
  have k3: "''progress'' \<notin> fst ` set
      ((case property JStr (progress_stage j) of None \<Rightarrow> [] | Some v \<Rightarrow> [(''stage'', v)])
       @ [])" for j
    by (auto split: option.splits)
  have k4: "''stage'' \<notin> fst ` set ([] :: (string \<times> json) list)"
    by simp
  from eq have e0: "(case property JStr (job_id a) of None \<Rightarrow> [] | Some v \<Rightarrow> [(''id'', v)])
       @ (case property JStr (status a) of None \<Rightarrow> [] | Some v \<Rightarrow> [(''status'', v)])
       @ (case property JNum (progress_percent a) of None \<Rightarrow> []
            | Some v \<Rightarrow> [(''progress'', v)])
       @ (case property JStr (progress_stage a) of None \<Rightarrow> [] | Some v \<Rightarrow> [(''stage'', v)])
       @ []
     = (case property JStr (job_id b) of None \<Rightarrow> [] | Some v \<Rightarrow> [(''id'', v)])
       @ (case property JStr (status b) of None \<Rightarrow> [] | Some v \<Rightarrow> [(''status'', v)])
       @ (case property JNum (progress_percent b) of None \<Rightarrow> []
            | Some v \<Rightarrow> [(''progress'', v)])
       @ (case property JStr (progress_stage b) of None \<Rightarrow> [] | Some v \<Rightarrow> [(''stage'', v)])
       @ []"
    unfolding projection_entries by simp
  note e1 = entry_eq [OF e0 k1 k1]
  note e2 = entry_eq [OF e1 [THEN conjunct2] k2 k2]
  note e3 = entry_eq [OF e2 [THEN conjunct2] k3 k3]
  note e4 = entry_eq [OF e3 [THEN conjunct2] k4 k4]
  have s: "inj JStr" "inj JNum" by (simp_all add: inj_def)
  from e1 e2 e3 e4 show "same_projection a b"
    by (simp add: same_projection_def property_eq_iff s)
qed

lemma counts_unknown: "\<not> known_status (status j) \<Longrightarrow> counts (j # jobs) = counts jobs"
  by (simp add: counts_def known_status_def)

lemma idle_manager_fields:
  "\<not> isRefreshing idle_manager" "\<not> aborted idle_manager"
  "lastJobsHash idle_manager = None" "\<not> hasActiveJobs idle_manager"
  "refreshInterval idle_manager = Some 10000" "effects idle_manager = [SetInterval 10000]"
  by (simp_all add: idle_manager_def startPeriodicRefresh_def initial_fields_def
      optimizeRefreshInterval_fields optimizeRefreshInterval_effects)

lemma consistent_idle_manager: "consistent idle_manager"
  by (simp add: consistent_def idle_manager_fields)
    (simp add: idle_manager_def startPeriodicRefresh_def initial_fields_def
      optimizeRefreshInterval_fields)

lemma renderable_examples:
  "renderable [job_running]" "renderable [job_completed]" "renderable [job_unknown]"
  "renderable [job_running, job_completed]" "\<not> renderable [job_without_id]"
  by (simp_all add: renderable_iff renderJob_isl renderProgress_isl job_running_def
      job_completed_def job_unknown_def job_without_id_def)

lemma renderable_poll:
  assumes "rearranges srt" "renderable jobs"
  shows "\<not> render_fails srt (Response st (BodyJobs jobs)) m"
  using assms by (simp add: on_jobs_renderable)

lemma same_hash_poll:
  assumes "lastJobsHash m = Some (jobsHash jobs)"
  shows "\<not> render_fails srt (Response st (BodyJobs jobs)) m"
  using assms by (simp add: render_fails_iff)

lemma renderJob_Inr:
  assumes "renderJob j = Inr v"
  shows "\<exists>i. job_id j = Present i \<and> jv_truncatedId v = take 8 i"
    and "\<not> known_status (status j) \<Longrightarrow> jv_statusText v = ''Sconosciuto''"
    and "jv_result v = (case result j of Present r \<Rightarrow> Some (renderResult r) | _ \<Rightarrow> None)"
    and "detail j = Absent \<Longrightarrow> jv_detail v = None"
    and "jv_progress v =
           (case progress j of
              Present p \<Rightarrow>
                Some (projr (renderProgress (status j)
                        (or_default (Dec 0 0) (progress_percent j)) p))
            | _ \<Rightarrow> None)"
    and "\<forall>p. progress j = Present p \<longrightarrow>
           renderProgress (status j) (or_default (Dec 0 0) (progress_percent j)) p =
             Inr (projr (renderProgress (status j) (or_default (Dec 0 0) (progress_percent j)) p))"
proof -
  from assms have "\<not> isl (renderJob j)" by simp
  then obtain i where i: "job_id j = Present i"
    and p: "\<forall>p. progress j = Present p \<longrightarrow>
              \<not> isl (renderProgress (status j) (or_default (Dec 0 0) (progress_percent j)) p)"
    by (auto simp add: renderJob_isl)
  show "\<forall>p. progress j = Present p \<longrightarrow>
           renderProgress (status j) (or_default (Dec 0 0) (progress_percent j)) p =
             Inr (projr (renderProgress (status j) (or_default (Dec 0 0) (progress_percent j)) p))"
    using p by simp
  have v: "v = \<lparr>jv_truncatedId = take 8 i,
       jv_statusText = fst (if status j = Present ''running'' then
                    (''In Corso'', ''step-running border-l-4 border-l-oneui-blue'')
                  else if status j = Present ''queued'' then
                    (''In Coda'', ''border-l-4 border-l-yellow-400'')
                  else if status j = Present ''completed'' then
                    (''Completato'', ''step-completed border-l-4 border-l-green-500'')
                  else if status j = Present ''failed'' then
                    (''Fallito'', ''step-failed border-l-4 border-l-red-500'')
                  else (''Sconosciuto'', ''border-l-4 border-l-gray-400'')),
       jv_cardClass = snd (if status j = Present ''running'' then
                    (''In Corso'', ''step-running border-l-4 border-l-oneui-blue'')
                  else if status j = Present ''queued'' then
                    (''In Coda'', ''border-l-4 border-l-yellow-400'')
                  else if status j = Present ''completed'' then
                    (''Completato'', ''step-completed border-l-4 border-l-green-500'')
                  else if status j = Present ''failed'' then
                    (''Fallito'', ''step-failed border-l-4 border-l-red-500'')
                  else (''Sconosciuto'', ''border-l-4 border-l-gray-400'')),
       jv_progress = (case progress j of
              Present p \<Rightarrow>
                Some (projr (renderProgress (status j)
                        (or_default (Dec 0 0) (progress_percent j)) p))
            | _ \<Rightarrow> None),
       jv_result = (case result j of Present r \<Rightarrow> Some (renderResult r) | _ \<Rightarrow> None),
       jv_detail = (case detail j of
                      Present d \<Rightarrow> if d \<noteq> [] \<and> status j = Present ''failed'' then Some d else None
                    | _ \<Rightarrow> None)\<rparr>"
  proof (cases "progress j")
    case (Present p)
    with p obtain pv where
      "renderProgress (status j) (or_default (Dec 0 0) (progress_percent j)) p = Inr pv"
      by (cases "renderProgress (status j) (or_default (Dec 0 0) (progress_percent j)) p") auto
    with assms i Present show ?thesis
      by (simp add: renderJob_def Let_def del: if_split)
  qed (use assms i in \<open>simp_all add: renderJob_def Let_def del: if_split\<close>)
  show "\<exists>i. job_id j = Present i \<and> jv_truncatedId v = take 8 i" using i v by simp
  show "\<not> known_status (status j) \<Longrightarrow> jv_statusText v = ''Sconosciuto''"
    unfolding v by (simp add: known_status_def)
  show "jv_result v = (case result j of Present r \<Rightarrow> Some (renderResult r) | _ \<Rightarrow> None)"
    unfolding v by simp
  show "detail j = Absent \<Longrightarrow> jv_detail v = None" unfolding v by simp
  show "jv_progress v =
           (case progress j of
              Present p \<Rightarrow>
                Some (projr (renderProgress (status j)
                        (or_default (Dec 0 0) (progress_percent j)) p))
            | _ \<Rightarrow> None)"
    unfolding v by simp
qed

lemma renderProgress_Inr:
  assumes "renderProgress st x p = Inr pv"
  shows "pv_percent pv = Math_round (ToNumber x) \<and> pv_bar pv = clamp_percent (ToNumber x)
     \<and> pv_total pv = or_default 0 (p_total p) \<and> pv_success pv = or_default 0 (p_success p)
     \<and> pv_failed pv = or_default 0 (p_failed p) \<and> pv_stage pv = or_default [] (p_stage p)
     \<and> (p_urls p = Absent \<longrightarrow> pv_urls pv = [] \<and> pv_more pv = 0)"
  using assms
  by (cases "p_urls p")
     (auto simp add: renderProgress_def Let_def or_default_def split: if_splits sum.splits)

lemma renderUrl_Inr:
  assumes "renderUrl (Some u) = Inr uv" "u_local_percent u = Absent"
  shows "uv_percent uv = None \<and> uv_bar uv = None"
  using assms by (auto simp add: renderUrl_def Let_def)

lemma unknown_status_renderable:
  assumes "job_id j = Present i" "\<not> known_status (status j)"
  shows "\<not> isl (renderJob j)"
  using assms by (auto simp add: renderJob_isl renderProgress_isl known_status_def)

lemma compareJobs_unknown:
  assumes "\<not> known_status (status j)"
  shows "compareJobs j k = None \<and> compareJobs k j = None"
  using assms
  by (auto simp add: compareJobs_def statusOrder_def known_status_def split: option.splits)

lemma anyActive_unknown: "\<not> known_status (status j) \<Longrightarrow> \<not> anyActive [j]"
  by (auto simp add: anyActive_def known_status_def)

lemma renderJobs_cards:
  assumes "rearranges srt" "renderable (j # jobs)"
  shows "\<exists>cards. fst (renderJobs srt (j # jobs) m) = Inr (srt compareJobs (j # jobs))
           \<and> jobsListContent (snd (renderJobs srt (j # jobs) m)) = Some (JobCards cards)
           \<and> map renderJob (srt compareJobs (j # jobs)) = map Inr cards
           \<and> renderJob j \<in> Inr ` set cards"
proof -
  from renderJobs_renderable [OF assms, of m] obtain js
    where js: "fst (renderJobs srt (j # jobs) m) = Inr js" by blast
  from renderJobs_done [OF js] obtain cards where
    s: "js = srt compareJobs (j # jobs)"
    and c: "all_or_error (map renderJob js) = Inr cards"
    and l: "jobsListContent (snd (renderJobs srt (j # jobs) m)) = Some (JobCards cards)"
    by auto
  from all_or_error_Inr [OF c] have m: "map renderJob js = map Inr cards" .
  have "j \<in> set js" using rearranges_set [OF assms(1), of compareJobs "j # jobs"] s by simp
  then have "renderJob j \<in> set (map renderJob js)" by simp
  then have "renderJob j \<in> Inr ` set cards" unfolding m by simp
  with js s l m show ?thesis by blast
qed

subsection \<open>Claims\<close>

text \<open>
  Claim C1 (idempotent render law). Take an idle manager and any sequence of polls that
  are answered with status 200 and job arrays with one and the same list of projections
  (job id, status, progress percentage, stage), the first of which ends without an
  exception. Then \<open>renderJobs\<close> is called at most once in the whole sequence; it is
  called on the first poll, and only if the stored fingerprint is not already the one of
  these projections; every later poll of the sequence calls it zero times. No poll of
  the sequence reports an error.
\<close>

theorem idempotent_render:
  assumes "\<not> isRefreshing m" and "\<not> aborted m"
    and "\<forall>jobs \<in> set jss. map projection jobs = p"
    and "\<forall>jobs rest. jss = jobs # rest \<longrightarrow> \<not> render_fails srt (Response 200 (BodyJobs jobs)) m"
  shows "renderCalls (polls srt m jss) \<le> renderCalls m + 1
     \<and> (lastJobsHash m = Some (JSON_stringify (JArr p)) \<longrightarrow>
          renderCalls (polls srt m jss) = renderCalls m)
     \<and> (\<forall>jobs rest. jss = jobs # rest \<longrightarrow>
          renderCalls (polls srt m [jobs]) =
            renderCalls m + (if lastJobsHash m = Some (JSON_stringify (JArr p)) then 0 else 1)
          \<and> renderCalls (polls srt m jss) = renderCalls (polls srt m [jobs]))
     \<and> notifications (polls srt m jss) = notifications m"
proof -
  let ?h = "JSON_stringify (JArr p)"
  have hashes: "\<forall>jobs \<in> set jss. jobsHash jobs = ?h"
    using assms(3) by (auto simp: jobsHash_def)
  have ok: "response_ok 200" by (simp add: response_ok_def)
  have same: "lastJobsHash m = Some ?h \<longrightarrow> renderCalls (polls srt m jss) = renderCalls m"
    using polls_same_hash [OF assms(1,2) _ hashes] by simp
  have first: "renderCalls (polls srt m [jobs]) =
            renderCalls m + (if lastJobsHash m = Some ?h then 0 else 1)
          \<and> renderCalls (polls srt m jss) = renderCalls (polls srt m [jobs])
          \<and> notifications (polls srt m jss) = notifications m"
    if jss: "jss = jobs # rest" for jobs rest
  proof -
    let ?m1 = "loadJobs srt (Response 200 (BodyJobs jobs)) m"
    have h: "jobsHash jobs = ?h" using hashes jss by simp
    have r: "\<not> render_fails srt (Response 200 (BodyJobs jobs)) m" using assms(4) jss by blast
    have idle: "\<not> isRefreshing ?m1" "\<not> aborted ?m1"
      using assms by (simp_all add: loadJobs_idle_after)
    note 1 = loadJobs_jobs [OF assms(1,2) ok r]
    have l1: "lastJobsHash ?m1 = Some ?h" using 1 h by simp
    have rest: "\<forall>jobs \<in> set rest. jobsHash jobs = ?h" using hashes jss by simp
    have a: "renderCalls (polls srt m [jobs]) =
            renderCalls m + (if lastJobsHash m = Some ?h then 0 else 1)"
      using 1 h by (simp add: polls_def)
    have 2: "renderCalls (polls srt ?m1 rest) = renderCalls ?m1
        \<and> notifications (polls srt ?m1 rest) = notifications ?m1"
      using polls_same_hash [OF idle l1 rest] by simp
    then have b: "renderCalls (polls srt m jss) = renderCalls (polls srt m [jobs])"
      by (simp add: polls_def jss)
    have c: "notifications (polls srt m jss) = notifications m"
      using 1 2 by (simp add: polls_def jss)
    from a b c show ?thesis by simp
  qed
  have "renderCalls (polls srt m jss) \<le> renderCalls m + 1
      \<and> notifications (polls srt m jss) = notifications m"
  proof (cases jss)
    case Nil
    then show ?thesis by (simp add: polls_def)
  next
    case (Cons jobs rest)
    from first [OF Cons] show ?thesis by auto
  qed
  then have bound: "renderCalls (polls srt m jss) \<le> renderCalls m + 1"
    and quiet: "notifications (polls srt m jss) = notifications m" by simp_all
  from bound same first quiet show ?thesis by blast
qed

theorem idempotent_render_witness:
  "\<not> isRefreshing idle_manager \<and> \<not> aborted idle_manager
   \<and> \<not> render_fails insertion_sort (Response 200 (BodyJobs [job_running])) idle_manager
   \<and> renderCalls
        (polls insertion_sort idle_manager
           [[job_running], [job_running\<lparr>detail := Present ''retry''\<rparr>], [job_running]]) =
       renderCalls idle_manager + 1"
proof -
  let ?jss = "[[job_running], [job_running\<lparr>detail := Present ''retry''\<rparr>], [job_running]]"
  have p: "\<forall>jobs \<in> set ?jss. map projection jobs = map projection [job_running]"
    by (simp add: projection_def progress_stage_def)
  note r = renderable_poll [OF rearranges_insertion_sort renderable_examples(1), of 200 idle_manager]
  have f: "\<forall>jobs rest. ?jss = jobs # rest \<longrightarrow>
             \<not> render_fails insertion_sort (Response 200 (BodyJobs jobs)) idle_manager"
    using r by simp
  have n: "lastJobsHash idle_manager \<noteq> Some (JSON_stringify (JArr (map projection [job_running])))"
    by (simp add: idle_manager_fields)
  from idempotent_render [OF idle_manager_fields(1,2) p f] n idle_manager_fields(1,2) r
  show ?thesis by simp
qed

text \<open>
  Claim C2 (mutual exclusion). A call of \<open>loadJobs\<close> made while the guard flag is set
  returns at once and changes nothing, so it starts no request; a call made while the
  flag is clear starts exactly one. Whatever the awaited request delivers (a job array,
  rendered or not, a 404, an error status, an unreadable body, a network error or an
  abort) the flag is clear when the call ends. Along every sequence of page events from
  the constructor on at most one status request is on the network, and while one is, no
  event starts another.
\<close>

theorem mutual_exclusion:
  "(isRefreshing m \<longrightarrow> loadJobs_begin m = m)
   \<and> (\<not> isRefreshing m \<longrightarrow> fetches (loadJobs_begin m) = fetches m + 1)
   \<and> \<not> isRefreshing (loadJobs_resume srt r m)
   \<and> inFlight (run srt new_ImportManager evs) \<le> 1
   \<and> (inFlight (run srt new_ImportManager evs) = 1 \<longrightarrow>
        fetches (step srt (run srt new_ImportManager evs) ev) =
          fetches (run srt new_ImportManager evs))"
proof -
  have c: "guarded (run srt new_ImportManager evs)"
    by (rule guarded_run) (rule guarded_new)
  have a: "isRefreshing m \<longrightarrow> loadJobs_begin m = m"
    by (simp add: loadJobs_begin_def)
  have b: "\<not> isRefreshing m \<longrightarrow> fetches (loadJobs_begin m) = fetches m + 1"
    by (simp add: fetches_begin)
  have d: "\<not> isRefreshing (loadJobs_resume srt r m)"
    by (simp add: loadJobs_resume_fields)
  from a b d inFlight_le_one [OF c] busy_step_no_fetch [OF c] show ?thesis by blast
qed

theorem mutual_exclusion_witness:
  "isRefreshing new_ImportManager
   \<and> loadJobs_begin new_ImportManager = new_ImportManager
   \<and> inFlight (run insertion_sort new_ImportManager [TimerFires, RefreshRequested]) \<le> 1
   \<and> inFlight (run insertion_sort new_ImportManager []) = 1
   \<and> fetches (step insertion_sort (run insertion_sort new_ImportManager []) RefreshRequested) =
       fetches (run insertion_sort new_ImportManager [])"
proof -
  have r: "isRefreshing new_ImportManager"
    by (simp add: new_ImportManager_def loadJobs_begin_fields)
  have i: "inFlight (run insertion_sort new_ImportManager []) = 1"
    by (simp add: run_def inFlight_def new_ImportManager_def loadJobs_begin_fields
        startPeriodicRefresh_def optimizeRefreshInterval_fields initial_fields_def)
  from mutual_exclusion [of new_ImportManager insertion_sort NetworkError
      "[TimerFires, RefreshRequested]"]
    mutual_exclusion [of new_ImportManager insertion_sort NetworkError "[]" RefreshRequested] r i
  show ?thesis by simp
qed

text \<open>
  Claim C3 (cadence), as amended. The timer period agrees with the active flag from the
  constructor on, as long as no received job array makes \<open>renderJob\<close> throw. For an
  idle manager in such a state: after a poll answered with a job array that is rendered
  without an exception the timer runs with period 1500 ms if some job is running or
  queued and with period 10000 ms otherwise (also for the empty array), and that poll
  re-arms the timer exactly when the active flag flips; after a poll answered with 404
  the period is 10000 ms, and that poll re-arms the timer exactly when the stored
  fingerprint was not already the one of the empty state, whether or not the active flag
  flips.
\<close>

theorem cadence:
  assumes "rearranges srt"
  shows "((\<forall>ev \<in> set evs. renderable_event ev) \<longrightarrow> consistent (run srt new_ImportManager evs))
     \<and> (consistent m \<and> \<not> isRefreshing m \<and> \<not> aborted m \<and> renderable jobs \<longrightarrow>
          refreshInterval (loadJobs srt (Response 200 (BodyJobs jobs)) m) =
            Some (if anyActive jobs then 1500 else 10000)
        \<and> timerArms (loadJobs srt (Response 200 (BodyJobs jobs)) m) =
            timerArms m + (if hasActiveJobs m \<noteq> anyActive jobs then 1 else 0))
     \<and> (consistent m \<and> \<not> isRefreshing m \<and> \<not> aborted m \<longrightarrow>
          refreshInterval (loadJobs srt (Response 404 b) m) = Some 10000
        \<and> timerArms (loadJobs srt (Response 404 b) m) =
            timerArms m + (if lastJobsHash m = Some ''empty'' then 0 else 1))"
proof -
  have ok: "response_ok 200" by (simp add: response_ok_def)
  have inv: "(\<forall>ev \<in> set evs. renderable_event ev) \<longrightarrow> consistent (run srt new_ImportManager evs)"
    using consistent_run [OF consistent_new assms] by blast
  have a: "refreshInterval (loadJobs srt (Response 200 (BodyJobs jobs)) m) =
            Some (if anyActive jobs then 1500 else 10000)
        \<and> timerArms (loadJobs srt (Response 200 (BodyJobs jobs)) m) =
            timerArms m + (if hasActiveJobs m \<noteq> anyActive jobs then 1 else 0)"
    if h: "consistent m" "\<not> isRefreshing m" "\<not> aborted m" "renderable jobs"
  proof -
    have t: "refreshInterval m = Some (if hasActiveJobs m then 1500 else 10000)"
      using h by (simp add: consistent_def)
    from loadJobs_jobs [OF h(2,3) ok renderable_poll [OF assms h(4)]] t show ?thesis by simp
  qed
  have c: "refreshInterval (loadJobs srt (Response 404 b) m) = Some 10000
        \<and> timerArms (loadJobs srt (Response 404 b) m) =
            timerArms m + (if lastJobsHash m = Some ''empty'' then 0 else 1)"
    if h: "consistent m" "\<not> isRefreshing m" "\<not> aborted m"
  proof (cases "lastJobsHash m = Some ''empty''")
    case True
    have t: "refreshInterval m = Some (if hasActiveJobs m then 1500 else 10000)"
      using h by (simp add: consistent_def)
    from True have "\<not> hasActiveJobs m" using h(1) by (simp add: consistent_def)
    then show ?thesis
      using loadJobs_not_found_fields(4) [OF h(2,3) True, of srt b] t
        timerArms_not_found [OF h(2,3), of srt b] True by simp
  next
    case False
    then show ?thesis
      using loadJobs_not_found_fields(3) [OF h(2,3) False, of srt b]
        timerArms_not_found [OF h(2,3), of srt b] by simp
  qed
  from inv a c show ?thesis by blast
qed

theorem cadence_witness:
  "rearranges insertion_sort \<and> consistent idle_manager \<and> \<not> isRefreshing idle_manager
   \<and> \<not> aborted idle_manager \<and> renderable [job_running] \<and> renderable [job_completed]
   \<and> refreshInterval (loadJobs insertion_sort (Response 200 (BodyJobs [job_running])) idle_manager)
       = Some 1500
   \<and> timerArms (loadJobs insertion_sort (Response 200 (BodyJobs [job_running])) idle_manager) =
       timerArms idle_manager + 1
   \<and> refreshInterval (loadJobs insertion_sort (Response 200 (BodyJobs [job_completed])) idle_manager)
       = Some 10000
   \<and> timerArms (loadJobs insertion_sort (Response 200 (BodyJobs [job_completed])) idle_manager) =
       timerArms idle_manager"
proof -
  have a: "anyActive [job_running]" "\<not> anyActive [job_completed]"
    by (simp_all add: anyActive_def job_running_def job_completed_def)
  from cadence [OF rearranges_insertion_sort, of "[]" idle_manager "[job_running]"]
    cadence [OF rearranges_insertion_sort, of "[]" idle_manager "[job_completed]"]
    a consistent_idle_manager idle_manager_fields renderable_examples rearranges_insertion_sort
  show ?thesis by simp
qed

text \<open>
  The timer is not re-armed only when the active flag flips: a poll that finds one
  completed job leaves the manager inactive, the next poll is answered with 404 and
  leaves it inactive as well, and yet that poll arms the timer once more.
\<close>

theorem cadence_rearm_counterexample:
  "\<not> hasActiveJobs (loadJobs insertion_sort (Response 200 (BodyJobs [job_completed])) idle_manager)
   \<and> \<not> hasActiveJobs
        (loadJobs insertion_sort (Response 404 BodyInvalid)
           (loadJobs insertion_sort (Response 200 (BodyJobs [job_completed])) idle_manager))
   \<and> timerArms
        (loadJobs insertion_sort (Response 404 BodyInvalid)
           (loadJobs insertion_sort (Response 200 (BodyJobs [job_completed])) idle_manager)) =
       timerArms (loadJobs insertion_sort (Response 200 (BodyJobs [job_completed])) idle_manager) + 1"
proof -
  let ?m1 = "loadJobs insertion_sort (Response 200 (BodyJobs [job_completed])) idle_manager"
  have ok: "response_ok 200" by (simp add: response_ok_def)
  have i: "\<not> isRefreshing ?m1" "\<not> aborted ?m1"
    using idle_manager_fields(1,2) by (simp_all add: loadJobs_idle_after)
  note 1 = loadJobs_jobs [OF idle_manager_fields(1,2) ok
      renderable_poll [OF rearranges_insertion_sort renderable_examples(2)]]
  have a: "\<not> hasActiveJobs ?m1"
    using 1 by (simp add: anyActive_def job_completed_def)
  have l: "lastJobsHash ?m1 \<noteq> Some ''empty''"
    using 1 by (simp add: jobsHash_not_empty)
  from loadJobs_not_found_fields(3) [OF i l, of insertion_sort BodyInvalid]
    timerArms_not_found [OF i, of insertion_sort BodyInvalid] a l
  show ?thesis by simp
qed

text \<open>
  The condition on rendering cannot be dropped: \<open>loadJobs\<close> writes the active flag
  before it renders. A poll that receives a
  running job without \<open>job_id\<close> sets the flag and then fails in \<open>renderJob\<close>, before
  the timer is re-armed; the next poll finds a running job, sees no flip of the flag,
  and the timer keeps its period of 10000 ms.
\<close>

lemma failed_render_leaves_slow_timer:
  "hasActiveJobs (loadJobs insertion_sort (Response 200 (BodyJobs [job_without_id])) idle_manager)
   \<and> refreshInterval
        (loadJobs insertion_sort (Response 200 (BodyJobs [job_running]))
           (loadJobs insertion_sort (Response 200 (BodyJobs [job_without_id])) idle_manager)) =
       Some 10000"
proof -
  let ?m1 = "loadJobs insertion_sort (Response 200 (BodyJobs [job_without_id])) idle_manager"
  have ok: "response_ok 200" by (simp add: response_ok_def)
  have f: "render_fails insertion_sort (Response 200 (BodyJobs [job_without_id])) idle_manager"
    by (simp add: render_fails_iff ok idle_manager_fields all_or_error_map_isl
        rearranges_set [OF rearranges_insertion_sort] renderJob_isl job_without_id_def)
  note 1 = loadJobs_render_fails [OF idle_manager_fields(1,2) f]
  have i: "\<not> isRefreshing ?m1" "\<not> aborted ?m1"
    using idle_manager_fields(1,2) by (simp_all add: loadJobs_idle_after)
  have a: "hasActiveJobs ?m1" using 1 by (simp add: anyActive_def job_without_id_def)
  have t: "refreshInterval ?m1 = Some 10000" using 1 by (simp add: idle_manager_fields)
  note 2 = loadJobs_jobs [OF i ok renderable_poll [OF rearranges_insertion_sort renderable_examples(1)]]
  from 2 a t show ?thesis by (simp add: anyActive_def job_running_def)
qed

text \<open>
  Claim C4 (fingerprint projection), as amended. The object built for a job is
  determined by, and determines, four values: the job id, the status, the progress
  percentage as received (not rounded) and the stage of the progress record. Two job
  lists that agree on these four values job by job have the same fingerprint, whatever
  their other fields hold.
\<close>

theorem fingerprint_projection:
  "(projection a = projection b \<longleftrightarrow> same_projection a b)
   \<and> (list_all2 same_projection js js' \<longrightarrow> jobsHash js = jobsHash js')"
proof -
  have "list_all2 same_projection js js' \<Longrightarrow> map projection js = map projection js'"
    by (induction rule: list_all2_induct) (simp_all add: projection_eq_iff)
  then show ?thesis
    by (auto simp add: projection_eq_iff jobsHash_def)
qed

theorem fingerprint_projection_witness:
  "same_projection job_running (job_running\<lparr>result := Present \<lparr>r_indexed = Present 1,
       r_total_urls = Absent, r_success = Absent, r_failed = Absent\<rparr>, detail := Present ''x''\<rparr>)
   \<and> jobsHash [job_running] =
       jobsHash [job_running\<lparr>result := Present \<lparr>r_indexed = Present 1,
         r_total_urls = Absent, r_success = Absent, r_failed = Absent\<rparr>, detail := Present ''x''\<rparr>]"
proof -
  let ?b = "job_running\<lparr>result := Present \<lparr>r_indexed = Present 1,
       r_total_urls = Absent, r_success = Absent, r_failed = Absent\<rparr>, detail := Present ''x''\<rparr>"
  have s: "same_projection job_running ?b"
    by (simp add: same_projection_def progress_stage_def)
  then have "list_all2 same_projection [job_running] [?b]" by simp
  with fingerprint_projection [of job_running ?b "[job_running]" "[?b]"] s
  show ?thesis by blast
qed

text \<open>
  The progress percentage enters the fingerprint unrounded: two snapshots of one
  running job with progress 40.2 and 40.4 agree on the job id, the status, the rounded
  percentage (40) and the stage, and their fingerprints differ.
\<close>

theorem fingerprint_rounded_counterexample:
  "same_rounded_projection job_running (job_running\<lparr>progress_percent := Present (Dec 404 1)\<rparr>)
   \<and> jobsHash [job_running] \<noteq> jobsHash [job_running\<lparr>progress_percent := Present (Dec 404 1)\<rparr>]"
  by code_simp

text \<open>
  Claim C5 (empty-set handling). Two polls in a row that are both answered with status
  404 show no notification; the first renders the empty state once unless the stored
  fingerprint is already the one of the empty state, and the second renders nothing and
  does nothing but issue its request. In a consistent state the page shows the empty
  state, zero counts and no active job after a 404.
\<close>

theorem not_found_is_empty_set:
  assumes "\<not> isRefreshing m" and "\<not> aborted m"
  shows "notifications (loadJobs srt (Response 404 b') (loadJobs srt (Response 404 b) m)) =
           notifications m
     \<and> emptyRenders (loadJobs srt (Response 404 b) m) =
         emptyRenders m + (if lastJobsHash m = Some ''empty'' then 0 else 1)
     \<and> emptyRenders (loadJobs srt (Response 404 b') (loadJobs srt (Response 404 b) m)) =
         emptyRenders (loadJobs srt (Response 404 b) m)
     \<and> effects (loadJobs srt (Response 404 b') (loadJobs srt (Response 404 b) m)) =
         effects (loadJobs srt (Response 404 b) m) @ [Fetch]
     \<and> (consistent m \<longrightarrow>
          jobsListContent (loadJobs srt (Response 404 b) m) = Some EmptyState
        \<and> statsShown (loadJobs srt (Response 404 b) m) = Some (0, 0, 0)
        \<and> \<not> hasActiveJobs (loadJobs srt (Response 404 b) m))"
proof -
  let ?m1 = "loadJobs srt (Response 404 b) m"
  let ?m2 = "loadJobs srt (Response 404 b') ?m1"
  have idle1: "\<not> isRefreshing ?m1" "\<not> aborted ?m1"
    using assms by (simp_all add: loadJobs_idle_after)
  have l1: "lastJobsHash ?m1 = Some ''empty''"
    using assms by (simp add: loadJobs_not_found_fields)
  have e1: "effects ?m1 = effects m @ [Fetch]
           @ (if lastJobsHash m = Some ''empty'' then []
              else [CallRenderEmptyState, CallUpdateStats 0 0 0]
                @ (if refreshInterval m \<noteq> None then [ClearInterval] else [])
                @ [SetInterval 10000])"
    using assms by (rule loadJobs_not_found_fields)
  have e2: "effects ?m2 = effects ?m1 @ [Fetch]"
    using loadJobs_not_found_fields(2) [OF idle1, of srt b'] l1 by simp
  have n: "notifications ?m2 = notifications m"
    unfolding notifications_def e2 unfolding e1 by simp
  have r1: "emptyRenders ?m1 = emptyRenders m + (if lastJobsHash m = Some ''empty'' then 0 else 1)"
    unfolding emptyRenders_def e1 by simp
  have r2: "emptyRenders ?m2 = emptyRenders ?m1"
    unfolding emptyRenders_def e2 by simp
  have c: "consistent m \<longrightarrow>
          jobsListContent ?m1 = Some EmptyState \<and> statsShown ?m1 = Some (0, 0, 0)
        \<and> \<not> hasActiveJobs ?m1"
  proof (cases "lastJobsHash m = Some ''empty''")
    case True
    then show ?thesis
      using loadJobs_not_found_fields(4) [OF assms True, of srt b] by (simp add: consistent_def)
  next
    case False
    then show ?thesis
      using loadJobs_not_found_fields(3) [OF assms False, of srt b] by simp
  qed
  from n r1 r2 e2 c show ?thesis by blast
qed

theorem not_found_is_empty_set_witness:
  "\<not> isRefreshing idle_manager \<and> \<not> aborted idle_manager
   \<and> emptyRenders
        (loadJobs insertion_sort (Response 404 BodyInvalid)
           (loadJobs insertion_sort (Response 404 BodyInvalid) idle_manager)) =
       emptyRenders idle_manager + 1
   \<and> notifications
        (loadJobs insertion_sort (Response 404 BodyInvalid)
           (loadJobs insertion_sort (Response 404 BodyInvalid) idle_manager)) =
       notifications idle_manager"
proof -
  from not_found_is_empty_set [OF idle_manager_fields(1,2), of insertion_sort BodyInvalid BodyInvalid]
    idle_manager_fields
  show ?thesis by simp
qed

text \<open>
  Claim C6 (counter liveness), as amended. On a poll answered with a job array that
  ends without an exception, \<open>updateStats\<close> is called with the numbers of completed,
  running and queued jobs of that array and the counters show them; this holds also
  when the fingerprint is unchanged, in which case nothing is rendered and the poll
  cannot fail. On a poll answered with 404 the counts are published, as zeros, only when
  the stored fingerprint is not already the one of the empty state; when it is, the poll
  does nothing but issue its request and the counters stay as they are.
\<close>

theorem counter_liveness:
  assumes "\<not> isRefreshing m" and "\<not> aborted m"
  shows "(response_ok st \<and> rearranges srt \<and> \<not> render_fails srt (Response st (BodyJobs jobs)) m \<longrightarrow>
          statsShown (loadJobs srt (Response st (BodyJobs jobs)) m) = Some (counts jobs)
        \<and> CallUpdateStats (fst (counts jobs)) (fst (snd (counts jobs))) (snd (snd (counts jobs)))
            \<in> set (drop (length (effects m))
                    (effects (loadJobs srt (Response st (BodyJobs jobs)) m))))
     \<and> (response_ok st \<and> lastJobsHash m = Some (jobsHash jobs) \<longrightarrow>
          statsShown (loadJobs srt (Response st (BodyJobs jobs)) m) = Some (counts jobs)
        \<and> CallUpdateStats (fst (counts jobs)) (fst (snd (counts jobs))) (snd (snd (counts jobs)))
            \<in> set (drop (length (effects m))
                    (effects (loadJobs srt (Response st (BodyJobs jobs)) m)))
        \<and> renderCalls (loadJobs srt (Response st (BodyJobs jobs)) m) = renderCalls m
        \<and> jobsListContent (loadJobs srt (Response st (BodyJobs jobs)) m) = jobsListContent m)
     \<and> (lastJobsHash m \<noteq> Some ''empty'' \<longrightarrow>
          statsShown (loadJobs srt (Response 404 b) m) = Some (counts [])
        \<and> CallUpdateStats 0 0 0
            \<in> set (drop (length (effects m)) (effects (loadJobs srt (Response 404 b) m))))
     \<and> (lastJobsHash m = Some ''empty'' \<longrightarrow>
          statsShown (loadJobs srt (Response 404 b) m) = statsShown m
        \<and> effects (loadJobs srt (Response 404 b) m) = effects m @ [Fetch])"
proof -
  have a: "statsShown (loadJobs srt (Response st (BodyJobs jobs)) m) = Some (counts jobs)
        \<and> CallUpdateStats (fst (counts jobs)) (fst (snd (counts jobs))) (snd (snd (counts jobs)))
            \<in> set (drop (length (effects m))
                    (effects (loadJobs srt (Response st (BodyJobs jobs)) m)))"
    if "response_ok st" "rearranges srt" "\<not> render_fails srt (Response st (BodyJobs jobs)) m"
    using loadJobs_jobs_stats [OF assms that(1,3)] that(2) by blast
  have s: "statsShown (loadJobs srt (Response st (BodyJobs jobs)) m) = Some (counts jobs)
        \<and> CallUpdateStats (fst (counts jobs)) (fst (snd (counts jobs))) (snd (snd (counts jobs)))
            \<in> set (drop (length (effects m))
                    (effects (loadJobs srt (Response st (BodyJobs jobs)) m)))
        \<and> renderCalls (loadJobs srt (Response st (BodyJobs jobs)) m) = renderCalls m
        \<and> jobsListContent (loadJobs srt (Response st (BodyJobs jobs)) m) = jobsListContent m"
    if h: "response_ok st" "lastJobsHash m = Some (jobsHash jobs)"
  proof -
    note n = same_hash_poll [OF h(2), of srt st]
    from loadJobs_jobs_stats [OF assms h(1) n] loadJobs_jobs [OF assms h(1) n] h(2)
    show ?thesis by simp
  qed
  have z: "statsShown (loadJobs srt (Response 404 b) m) = Some (counts [])
        \<and> CallUpdateStats 0 0 0
            \<in> set (drop (length (effects m)) (effects (loadJobs srt (Response 404 b) m)))"
    if h: "lastJobsHash m \<noteq> Some ''empty''"
    using loadJobs_not_found_fields(3) [OF assms h, of srt b]
      loadJobs_not_found_fields(2) [OF assms, of srt b] h
    by (simp add: counts_def)
  have e: "statsShown (loadJobs srt (Response 404 b) m) = statsShown m
        \<and> effects (loadJobs srt (Response 404 b) m) = effects m @ [Fetch]"
    if h: "lastJobsHash m = Some ''empty''"
    using loadJobs_not_found_fields(4) [OF assms h, of srt b]
      loadJobs_not_found_fields(2) [OF assms, of srt b] h
    by simp
  from a s z e show ?thesis by blast
qed

theorem counter_liveness_witness:
  "\<not> isRefreshing idle_manager \<and> \<not> aborted idle_manager \<and> response_ok 200
   \<and> rearranges insertion_sort
   \<and> \<not> render_fails insertion_sort (Response 200 (BodyJobs [job_running, job_completed]))
        idle_manager
   \<and> statsShown
        (loadJobs insertion_sort (Response 200 (BodyJobs [job_running, job_completed]))
           idle_manager) = Some (1, 1, 0)
   \<and> statsShown (loadJobs insertion_sort (Response 404 BodyInvalid) idle_manager) = Some (0, 0, 0)"
proof -
  let ?js = "[job_running, job_completed]"
  have ok: "response_ok 200" by (simp add: response_ok_def)
  note r = renderable_poll [OF rearranges_insertion_sort renderable_examples(4), of 200 idle_manager]
  have n: "counts ?js = (1, 1, 0)" "counts [] = (0, 0, 0)"
    by (simp_all add: counts_def job_running_def job_completed_def)
  from counter_liveness [OF idle_manager_fields(1,2), of 200 insertion_sort ?js BodyInvalid]
    ok r n rearranges_insertion_sort idle_manager_fields
  show ?thesis by simp
qed

text \<open>
  The counts are not published on every poll that is answered: the first 404 publishes
  zero counts, and a second 404 right after it calls neither \<open>updateStats\<close> nor
  anything else; its only effect is the request.
\<close>

theorem repeated_not_found_publishes_nothing:
  "statsShown (loadJobs insertion_sort (Response 404 BodyInvalid) idle_manager) = Some (0, 0, 0)
   \<and> effects
        (loadJobs insertion_sort (Response 404 BodyInvalid)
           (loadJobs insertion_sort (Response 404 BodyInvalid) idle_manager)) =
       effects (loadJobs insertion_sort (Response 404 BodyInvalid) idle_manager) @ [Fetch]"
proof -
  let ?m1 = "loadJobs insertion_sort (Response 404 BodyInvalid) idle_manager"
  have i: "\<not> isRefreshing ?m1" "\<not> aborted ?m1"
    using idle_manager_fields(1,2) by (simp_all add: loadJobs_idle_after)
  have l: "lastJobsHash ?m1 = Some ''empty''"
    using idle_manager_fields(1,2) by (simp add: loadJobs_not_found_fields)
  have n: "lastJobsHash idle_manager \<noteq> Some ''empty''" by (simp add: idle_manager_fields)
  from loadJobs_not_found_fields(3) [OF idle_manager_fields(1,2) n, of insertion_sort BodyInvalid]
    loadJobs_not_found_fields(2) [OF i, of insertion_sort BodyInvalid] l
  show ?thesis by simp
qed

text \<open>
  Claim C7 (disposal finality), as amended. \<open>cleanup\<close> clears the timer, aborts the
  signal, so that no request remains on the network, and resets the fingerprint and the
  guard flag. Whatever events follow, the timer stays cleared and a timer event does
  nothing; a response that arrives late changes nothing but the count of suspended
  calls; nothing more is rendered, published or notified, and no timer is armed. (The
  active flag is left out: \<open>cleanup\<close> does not write it.)
\<close>

theorem disposal_finality:
  "refreshInterval (run srt (cleanup m) evs) = None
   \<and> step srt (run srt (cleanup m) evs) TimerFires = run srt (cleanup m) evs
   \<and> aborted (cleanup m) \<and> inFlight (cleanup m) = 0 \<and> Abort \<in> set (effects (cleanup m))
   \<and> loadJobs_resume srt r (cleanup m) = (cleanup m)\<lparr>pending := pending m - 1\<rparr>
   \<and> observed (run srt (cleanup m) evs) = observed (cleanup m)
   \<and> renderCalls (run srt (cleanup m) evs) = renderCalls m
   \<and> emptyRenders (run srt (cleanup m) evs) = emptyRenders m
   \<and> notifications (run srt (cleanup m) evs) = notifications m
   \<and> timerArms (run srt (cleanup m) evs) = timerArms m
   \<and> jobsListContent (run srt (cleanup m) evs) = jobsListContent m
   \<and> statsShown (run srt (cleanup m) evs) = statsShown m
   \<and> lastJobsHash (cleanup m) = None \<and> \<not> isRefreshing (cleanup m)"
proof -
  let ?d = "run srt (cleanup m) evs"
  have d: "disposed ?d" and o: "observed ?d = observed (cleanup m)"
    and j: "jobsListContent ?d = jobsListContent m" and s: "statsShown ?d = statsShown m"
    using disposed_run [OF disposed_cleanup, of srt m evs] by (simp_all add: cleanup_fields)
  have t: "step srt ?d TimerFires = ?d"
    using d by (simp add: step_def disposed_def)
  have l: "loadJobs_resume srt r (cleanup m) = (cleanup m)\<lparr>pending := pending m - 1\<rparr>"
    by (simp add: loadJobs_resume_aborted cleanup_fields cleanup_def Let_def emit_def
        stopPeriodicRefresh_def)
  have c: "renderCalls ?d = renderCalls m" "emptyRenders ?d = emptyRenders m"
    "notifications ?d = notifications m" "timerArms ?d = timerArms m"
    unfolding count_observed o observed_cleanup by simp_all
  from d t l o c j s show ?thesis
    by (simp add: disposed_def cleanup_fields inFlight_def)
qed

theorem disposal_finality_witness:
  "refreshInterval
     (run insertion_sort (cleanup new_ImportManager)
        [FetchSettles (Response 200 (BodyJobs [job_running])), TimerFires, RefreshRequested]) = None
   \<and> renderCalls
       (run insertion_sort (cleanup new_ImportManager)
          [FetchSettles (Response 200 (BodyJobs [job_running])), TimerFires, RefreshRequested]) =
      renderCalls new_ImportManager
   \<and> lastJobsHash (cleanup new_ImportManager) = None"
  using disposal_finality [of insertion_sort new_ImportManager
      "[FetchSettles (Response 200 (BodyJobs [job_running])), TimerFires, RefreshRequested]"]
  by simp

text \<open>
  \<open>cleanup\<close> does not reset the active flag: the flag is initially false, and after a
  poll that found a running job it is still true when \<open>cleanup\<close> has run.
\<close>

theorem cleanup_keeps_active_flag:
  "\<not> hasActiveJobs initial_fields
   \<and> hasActiveJobs
       (cleanup (loadJobs insertion_sort (Response 200 (BodyJobs [job_running])) idle_manager))"
proof -
  have ok: "response_ok 200" by (simp add: response_ok_def)
  have "hasActiveJobs (loadJobs insertion_sort (Response 200 (BodyJobs [job_running])) idle_manager)"
    using loadJobs_jobs [OF idle_manager_fields(1,2) ok
        renderable_poll [OF rearranges_insertion_sort renderable_examples(1)]]
    by (simp add: anyActive_def job_running_def)
  then show ?thesis by (simp add: cleanup_fields initial_fields_def)
qed

text \<open>
  Claim C8 (error propagation and atomicity), as amended. When the awaited request
  fails other than by an abort (a network error, an error status other than 404, a body
  that cannot be read as a job array) the only thing \<open>loadJobs\<close> does is show the
  notification ``Errore nel caricamento dei job'': nothing is rendered, and the
  fingerprint, the active flag, the counters, the jobs list and the timer are as before.
  When a job array has arrived and an exception is thrown while it is rendered, one
  notification is shown as well, the render callback has been called once, and the
  fingerprint, the counters, the jobs list and the timer are as before. When the request
  is aborted, nothing at all is shown or changed. In every case exactly these two kinds
  of failure notify, once, and the guard flag ends clear.
\<close>

theorem error_atomicity:
  "(\<not> aborted m \<and> refresh_fails r \<longrightarrow>
      effects (loadJobs_resume srt r m) =
        effects m @ [ShowNotification ''Errore nel caricamento dei job'' ''destructive'']
    \<and> lastJobsHash (loadJobs_resume srt r m) = lastJobsHash m
    \<and> hasActiveJobs (loadJobs_resume srt r m) = hasActiveJobs m
    \<and> statsShown (loadJobs_resume srt r m) = statsShown m
    \<and> jobsListContent (loadJobs_resume srt r m) = jobsListContent m
    \<and> refreshInterval (loadJobs_resume srt r m) = refreshInterval m)
   \<and> (\<not> aborted m \<and> render_fails srt r m \<longrightarrow>
      notifications (loadJobs_resume srt r m) = notifications m + 1
    \<and> renderCalls (loadJobs_resume srt r m) = renderCalls m + 1
    \<and> lastJobsHash (loadJobs_resume srt r m) = lastJobsHash m
    \<and> statsShown (loadJobs_resume srt r m) = statsShown m
    \<and> jobsListContent (loadJobs_resume srt r m) = jobsListContent m
    \<and> refreshInterval (loadJobs_resume srt r m) = refreshInterval m)
   \<and> (aborted m \<or> r = AbortError \<longrightarrow>
      loadJobs_resume srt r m = m\<lparr>isRefreshing := False, pending := pending m - 1\<rparr>)
   \<and> notifications (loadJobs_resume srt r m) =
       notifications m
         + (if \<not> aborted m \<and> (refresh_fails r \<or> render_fails srt r m) then 1 else 0)
   \<and> \<not> isRefreshing (loadJobs_resume srt r m)"
proof -
  have a: "\<not> aborted m \<and> refresh_fails r \<longrightarrow>
      effects (loadJobs_resume srt r m) =
        effects m @ [ShowNotification ''Errore nel caricamento dei job'' ''destructive'']
    \<and> lastJobsHash (loadJobs_resume srt r m) = lastJobsHash m
    \<and> hasActiveJobs (loadJobs_resume srt r m) = hasActiveJobs m
    \<and> statsShown (loadJobs_resume srt r m) = statsShown m
    \<and> jobsListContent (loadJobs_resume srt r m) = jobsListContent m
    \<and> refreshInterval (loadJobs_resume srt r m) = refreshInterval m"
    by (simp add: loadJobs_resume_def loadJobs_try_failure loadJobs_finally_other on_error_fields)
  have f: "renderCalls (loadJobs_finally x) = renderCalls x" for x
    by (simp add: renderCalls_def loadJobs_finally_other)
  have n: "notifications (loadJobs_resume srt r m) =
       notifications m
         + (if \<not> aborted m \<and> (refresh_fails r \<or> render_fails srt r m) then 1 else 0)"
    by (simp add: loadJobs_resume_def notifications_finally notifications_try)
  have b: "\<not> aborted m \<and> render_fails srt r m \<longrightarrow>
      notifications (loadJobs_resume srt r m) = notifications m + 1
    \<and> renderCalls (loadJobs_resume srt r m) = renderCalls m + 1
    \<and> lastJobsHash (loadJobs_resume srt r m) = lastJobsHash m
    \<and> statsShown (loadJobs_resume srt r m) = statsShown m
    \<and> jobsListContent (loadJobs_resume srt r m) = jobsListContent m
    \<and> refreshInterval (loadJobs_resume srt r m) = refreshInterval m"
  proof (intro impI)
    assume h: "\<not> aborted m \<and> render_fails srt r m"
    from loadJobs_try_render_fails [of srt r m] h n
    show "notifications (loadJobs_resume srt r m) = notifications m + 1
    \<and> renderCalls (loadJobs_resume srt r m) = renderCalls m + 1
    \<and> lastJobsHash (loadJobs_resume srt r m) = lastJobsHash m
    \<and> statsShown (loadJobs_resume srt r m) = statsShown m
    \<and> jobsListContent (loadJobs_resume srt r m) = jobsListContent m
    \<and> refreshInterval (loadJobs_resume srt r m) = refreshInterval m"
      by (simp add: loadJobs_resume_def loadJobs_finally_other f)
  qed
  have c: "aborted m \<or> r = AbortError \<longrightarrow>
      loadJobs_resume srt r m = m\<lparr>isRefreshing := False, pending := pending m - 1\<rparr>"
    by (auto simp add: loadJobs_resume_def loadJobs_try_abort loadJobs_finally_def)
  have d: "\<not> isRefreshing (loadJobs_resume srt r m)"
    by (simp add: loadJobs_resume_fields)
  from a b c n d show ?thesis by blast
qed

theorem error_atomicity_witness:
  "\<not> aborted new_ImportManager \<and> refresh_fails (Response 500 BodyInvalid)
   \<and> notifications (loadJobs_resume insertion_sort (Response 500 BodyInvalid) new_ImportManager) =
       notifications new_ImportManager + 1
   \<and> lastJobsHash (loadJobs_resume insertion_sort (Response 500 BodyInvalid) new_ImportManager) =
       lastJobsHash new_ImportManager
   \<and> notifications (loadJobs_resume insertion_sort AbortError new_ImportManager) =
       notifications new_ImportManager"
proof -
  have a: "\<not> aborted new_ImportManager"
    by (simp add: new_ImportManager_def loadJobs_begin_fields startPeriodicRefresh_def
        optimizeRefreshInterval_fields initial_fields_def)
  have f: "refresh_fails (Response 500 BodyInvalid)" "\<not> refresh_fails AbortError"
    by (simp_all add: response_ok_def)
  have e: "notifications (loadJobs_resume insertion_sort (Response 500 BodyInvalid) new_ImportManager) =
       notifications new_ImportManager + 1
     \<and> lastJobsHash (loadJobs_resume insertion_sort (Response 500 BodyInvalid) new_ImportManager) =
       lastJobsHash new_ImportManager"
    using error_atomicity [of new_ImportManager "Response 500 BodyInvalid" insertion_sort] a f(1)
    by simp
  have "notifications (loadJobs_resume insertion_sort AbortError new_ImportManager) =
       notifications new_ImportManager"
    using f(2) by (simp add: notifications_try notifications_finally loadJobs_resume_def)
  with e a f(1) show ?thesis by blast
qed

text \<open>
  A failure does not always leave the state as it was, nor the render callback
  uncalled: on an inactive manager, a poll that receives a running job without
  \<open>job_id\<close> calls \<open>renderJobs\<close>, fails there and shows the notification, and the
  active flag, written before rendering, is now true.
\<close>

theorem failed_render_changes_active_flag:
  "render_fails insertion_sort (Response 200 (BodyJobs [job_without_id])) idle_manager
   \<and> \<not> hasActiveJobs idle_manager
   \<and> hasActiveJobs
       (loadJobs insertion_sort (Response 200 (BodyJobs [job_without_id])) idle_manager)
   \<and> effects (loadJobs insertion_sort (Response 200 (BodyJobs [job_without_id])) idle_manager) =
       effects idle_manager
         @ [Fetch, CallRenderJobs [job_without_id],
            ShowNotification ''Errore nel caricamento dei job'' ''destructive'']"
proof -
  have ok: "response_ok 200" by (simp add: response_ok_def)
  have f: "render_fails insertion_sort (Response 200 (BodyJobs [job_without_id])) idle_manager"
    by (simp add: render_fails_iff ok idle_manager_fields all_or_error_map_isl
        rearranges_set [OF rearranges_insertion_sort] renderJob_isl job_without_id_def)
  from loadJobs_render_fails [OF idle_manager_fields(1,2) f] f idle_manager_fields(4)
  show ?thesis by (simp add: anyActive_def job_without_id_def)
qed

text \<open>
  Claim C9 (defensive payload handling). A job with a \<open>job_id\<close> whose status is none
  of queued, running, completed, failed is rendered without an exception, with the label
  ``Sconosciuto'' (unknown); the sort comparator yields \<open>NaN\<close> for it against any job,
  and it counts for none of the three counters nor as active. \<open>renderJob\<close> throws in
  two cases only, neither of which is a missing optional field or an unknown status: the
  \<open>job_id\<close> is missing or \<open>null\<close>, or the job is running and the \<open>urls\<close> of its
  progress record are \<open>null\<close> or have a \<open>null\<close> among the first ten. Whatever
  rearrangement the sort returns, a job array all of whose jobs are rendered without an
  exception is rendered as a whole, one card for each of its jobs. In every job that is
  rendered, an absent \<open>progress\<close>, \<open>result\<close> or \<open>detail\<close> gives no such section
  and an absent \<open>progress_percent\<close> is 0; in every progress and result record an
  absent count is 0, an absent stage the empty string and an absent list of URLs the
  empty list; a URL without \<open>local_percent\<close> shows no percentage and no bar.
\<close>

theorem defensive_payload:
  assumes "rearranges srt"
  shows "(job_id j = Present i \<and> \<not> known_status (status j) \<longrightarrow>
          (\<exists>v. renderJob j = Inr v \<and> jv_statusText v = ''Sconosciuto'')
        \<and> compareJobs j k = None \<and> compareJobs k j = None
        \<and> counts (j # jobs) = counts jobs \<and> \<not> anyActive [j])
     \<and> (isl (renderJob j) \<longleftrightarrow>
          (\<forall>i. job_id j \<noteq> Present i)
        \<or> (status j = Present ''running''
            \<and> (\<exists>p. progress j = Present p
                 \<and> (p_urls p = Null
                    \<or> (\<exists>us. p_urls p = Present us \<and> None \<in> set (take 10 us))))))
     \<and> (renderable (j # jobs) \<longrightarrow>
          (\<exists>cards. fst (renderJobs srt (j # jobs) m) = Inr (srt compareJobs (j # jobs))
             \<and> jobsListContent (snd (renderJobs srt (j # jobs) m)) = Some (JobCards cards)
             \<and> map renderJob (srt compareJobs (j # jobs)) = map Inr cards
             \<and> renderJob j \<in> Inr ` set cards)
        \<and> mset (srt compareJobs (j # jobs)) = mset (j # jobs))
     \<and> (renderJob j = Inr v \<longrightarrow>
          (progress j = Absent \<longrightarrow> jv_progress v = None)
        \<and> (result j = Absent \<longrightarrow> jv_result v = None)
        \<and> (detail j = Absent \<longrightarrow> jv_detail v = None)
        \<and> (\<forall>r. result j = Present r \<longrightarrow> jv_result v = Some (renderResult r))
        \<and> (\<forall>p. progress j = Present p \<longrightarrow>
             (\<exists>pv. jv_progress v = Some pv
                \<and> renderProgress (status j) (or_default (Dec 0 0) (progress_percent j)) p = Inr pv
                \<and> (progress_percent j = Absent \<longrightarrow> pv_percent pv = 0 \<and> pv_bar pv = Dec 0 0))))
     \<and> (renderProgress st x p = Inr pv \<longrightarrow>
          (p_total p = Absent \<longrightarrow> pv_total pv = Some 0)
        \<and> (p_success p = Absent \<longrightarrow> pv_success pv = Some 0)
        \<and> (p_failed p = Absent \<longrightarrow> pv_failed pv = Some 0)
        \<and> (p_stage p = Absent \<longrightarrow> pv_stage pv = Some [])
        \<and> (p_urls p = Absent \<longrightarrow> pv_urls pv = [] \<and> pv_more pv = 0))
     \<and> (r_indexed r = Absent \<longrightarrow> rv_indexed (renderResult r) = Some 0)
     \<and> (r_total_urls r = Absent \<longrightarrow> rv_total_urls (renderResult r) = Some 0)
     \<and> (r_success r = Absent \<longrightarrow> rv_success (renderResult r) = Some 0)
     \<and> (r_failed r = Absent \<longrightarrow> rv_failed (renderResult r) = Some 0)
     \<and> (renderUrl (Some u) = Inr uv \<and> u_local_percent u = Absent \<longrightarrow>
          uv_percent uv = None \<and> uv_bar uv = None)"
proof -
  have unknown: "(\<exists>v. renderJob j = Inr v \<and> jv_statusText v = ''Sconosciuto'')
        \<and> compareJobs j k = None \<and> compareJobs k j = None
        \<and> counts (j # jobs) = counts jobs \<and> \<not> anyActive [j]"
    if h: "job_id j = Present i" "\<not> known_status (status j)"
  proof -
    from unknown_status_renderable [OF h] obtain v where v: "renderJob j = Inr v"
      by (cases "renderJob j") auto
    from renderJob_Inr(2) [OF v h(2)] v compareJobs_unknown [OF h(2), of k]
      counts_unknown [OF h(2), of jobs] anyActive_unknown [OF h(2)]
    show ?thesis by blast
  qed
  have throws: "isl (renderJob j) \<longleftrightarrow>
          (\<forall>i. job_id j \<noteq> Present i)
        \<or> (status j = Present ''running''
            \<and> (\<exists>p. progress j = Present p
                 \<and> (p_urls p = Null
                    \<or> (\<exists>us. p_urls p = Present us \<and> None \<in> set (take 10 us)))))"
    by (auto simp add: renderJob_isl renderProgress_isl)
  have page: "(\<exists>cards. fst (renderJobs srt (j # jobs) m) = Inr (srt compareJobs (j # jobs))
             \<and> jobsListContent (snd (renderJobs srt (j # jobs) m)) = Some (JobCards cards)
             \<and> map renderJob (srt compareJobs (j # jobs)) = map Inr cards
             \<and> renderJob j \<in> Inr ` set cards)
        \<and> mset (srt compareJobs (j # jobs)) = mset (j # jobs)"
    if "renderable (j # jobs)"
    using renderJobs_cards [OF assms that, of m] rearranges_mset [OF assms] by blast
  have card: "(progress j = Absent \<longrightarrow> jv_progress v = None)
        \<and> (result j = Absent \<longrightarrow> jv_result v = None)
        \<and> (detail j = Absent \<longrightarrow> jv_detail v = None)
        \<and> (\<forall>r. result j = Present r \<longrightarrow> jv_result v = Some (renderResult r))
        \<and> (\<forall>p. progress j = Present p \<longrightarrow>
             (\<exists>pv. jv_progress v = Some pv
                \<and> renderProgress (status j) (or_default (Dec 0 0) (progress_percent j)) p = Inr pv
                \<and> (progress_percent j = Absent \<longrightarrow> pv_percent pv = 0 \<and> pv_bar pv = Dec 0 0)))"
    if v: "renderJob j = Inr v"
  proof -
    have z: "Math_round (ToNumber (Some (Dec 0 0))) = 0"
      "clamp_percent (ToNumber (Some (Dec 0 0))) = Dec 0 0"
      by (simp_all add: Math_round_def clamp_percent_def ToNumber_def)
    have "\<exists>pv. jv_progress v = Some pv
            \<and> renderProgress (status j) (or_default (Dec 0 0) (progress_percent j)) p = Inr pv
            \<and> (progress_percent j = Absent \<longrightarrow> pv_percent pv = 0 \<and> pv_bar pv = Dec 0 0)"
      if p: "progress j = Present p" for p
    proof -
      let ?pv = "projr (renderProgress (status j) (or_default (Dec 0 0) (progress_percent j)) p)"
      have a: "jv_progress v = Some ?pv" using renderJob_Inr(5) [OF v] p by simp
      have b: "renderProgress (status j) (or_default (Dec 0 0) (progress_percent j)) p = Inr ?pv"
        using renderJob_Inr(6) [OF v] p by blast
      have "progress_percent j = Absent \<longrightarrow> pv_percent ?pv = 0 \<and> pv_bar ?pv = Dec 0 0"
        using renderProgress_Inr [OF b] z by (auto simp add: or_default_def)
      with a b show ?thesis by blast
    qed
    with renderJob_Inr(3,4,5) [OF v] show ?thesis by auto
  qed
  have prog: "(p_total p = Absent \<longrightarrow> pv_total pv = Some 0)
        \<and> (p_success p = Absent \<longrightarrow> pv_success pv = Some 0)
        \<and> (p_failed p = Absent \<longrightarrow> pv_failed pv = Some 0)
        \<and> (p_stage p = Absent \<longrightarrow> pv_stage pv = Some [])
        \<and> (p_urls p = Absent \<longrightarrow> pv_urls pv = [] \<and> pv_more pv = 0)"
    if "renderProgress st x p = Inr pv"
    using renderProgress_Inr [OF that] by (auto simp add: or_default_def)
  have res: "r_indexed r = Absent \<longrightarrow> rv_indexed (renderResult r) = Some 0"
    "r_total_urls r = Absent \<longrightarrow> rv_total_urls (renderResult r) = Some 0"
    "r_success r = Absent \<longrightarrow> rv_success (renderResult r) = Some 0"
    "r_failed r = Absent \<longrightarrow> rv_failed (renderResult r) = Some 0"
    by (simp_all add: renderResult_def or_default_def)
  have url: "renderUrl (Some u) = Inr uv \<and> u_local_percent u = Absent \<longrightarrow>
          uv_percent uv = None \<and> uv_bar uv = None"
    using renderUrl_Inr [of u uv] by blast
  from unknown throws page card prog res url show ?thesis by blast
qed

theorem defensive_payload_witness:
  "rearranges insertion_sort \<and> job_id job_unknown = Present ''c41f7e08-9b''
   \<and> \<not> known_status (status job_unknown)
   \<and> (\<exists>v. renderJob job_unknown = Inr v \<and> jv_statusText v = ''Sconosciuto'')
   \<and> counts [job_unknown, job_running] = counts [job_running]"
proof -
  have u: "\<not> known_status (status job_unknown)" "job_id job_unknown = Present ''c41f7e08-9b''"
    by (simp_all add: known_status_def job_unknown_def)
  from defensive_payload [OF rearranges_insertion_sort, of job_unknown "''c41f7e08-9b''"
      _ "[job_running]"] u rearranges_insertion_sort
  show ?thesis by blast
qed

text \<open>
  Claim C10 (URL validation partition). The two lists returned by \<open>validateUrls\<close> are
  the input filtered by the domain test and by its negation: every input URL lands in
  exactly one of them, in input order; a URL is valid exactly when its lower-cased text
  contains one of the six supported domains; and when \<open>handleSubmit\<close> posts to the ingest
  endpoint the body is the valid list.
\<close>

theorem validateUrls_partition:
  assumes "validateUrls urls = (valid, invalid)"
  shows "valid = filter isValid urls
     \<and> invalid = filter (\<lambda>u. \<not> isValid u) urls
     \<and> mset valid + mset invalid = mset urls
     \<and> set valid \<inter> set invalid = {}
     \<and> (\<forall>u \<in> set urls. u \<in> set valid \<longleftrightarrow>
           (\<exists>domain \<in> set supportedDomains. \<exists>p q. toLowerCase u = p @ domain @ q))
     \<and> (\<forall>body. handleSubmit_request urls = Some body \<longrightarrow> body = valid \<and> valid \<noteq> [])"
proof -
  from assms have v: "valid = filter isValid urls"
    and i: "invalid = filter (\<lambda>u. \<not> isValid u) urls"
    by (simp_all add: validateUrls_filter)
  have m: "mset valid + mset invalid = mset urls"
    unfolding v i by simp
  have d: "set valid \<inter> set invalid = {}"
    unfolding v i by auto
  have c: "\<forall>u \<in> set urls. u \<in> set valid \<longleftrightarrow>
           (\<exists>domain \<in> set supportedDomains. \<exists>p q. toLowerCase u = p @ domain @ q)"
    unfolding v by (simp add: isValid_iff)
  have b: "\<forall>body. handleSubmit_request urls = Some body \<longrightarrow> body = valid \<and> valid \<noteq> []"
    using assms by (auto simp: handleSubmit_request_def Let_def split: if_splits)
  from v i m d c b show ?thesis by blast
qed

theorem validateUrls_partition_witness:
  "validateUrls [''https://www.YouTube.com/watch?v=1'', ''https://example.org/x'',
                 ''https://youtu.be/abc''] =
     ([''https://www.YouTube.com/watch?v=1'', ''https://youtu.be/abc''],
      [''https://example.org/x''])
   \<and> mset [''https://www.YouTube.com/watch?v=1'', ''https://youtu.be/abc'']
       + mset [''https://example.org/x'']
     = mset [''https://www.YouTube.com/watch?v=1'', ''https://example.org/x'',
             ''https://youtu.be/abc'']"
proof -
  have h: "validateUrls [''https://www.YouTube.com/watch?v=1'', ''https://example.org/x'',
                 ''https://youtu.be/abc''] =
     ([''https://www.YouTube.com/watch?v=1'', ''https://youtu.be/abc''],
      [''https://example.org/x''])"
    by code_simp
  from validateUrls_partition [OF h] h show ?thesis by blast
qed

end
